theory Spec2Isabelle
  imports Complex_Main
begin

section \<open>JavaScript numbers\<close>

text \<open>
  A JavaScript \<open>number\<close> is an IEEE 754 double. A finite value is modelled by the real
  number it denotes, with \<open>Fin 0\<close> for \<open>+0\<close> and \<open>NegZero\<close> for \<open>-0\<close>; the other values
  are \<open>Infinity\<close>, \<open>-Infinity\<close> and \<open>NaN\<close>. Every arithmetic operation computes the
  exact real result and rounds it to the nearest double, ties to even, as the default
  rounding mode of IEEE 754 does: with gradual underflow below \<open>2 powi (- 1022)\<close> and
  with overflow to an infinity from \<open>2 powi 1024 - 2 powi 970\<close> on.
\<close>

datatype number = Fin real | NegZero | PInf | NInf | NaN

text \<open>Rounding a real to the nearest integer, a tie to the even one.\<close>

definition round_half_even :: "real \<Rightarrow> int" where
  "round_half_even y =
     (let f = \<lfloor>y\<rfloor>; d = y - of_int f
      in if d < 1 / 2 then f else if 1 / 2 < d then f + 1 else if even f then f else f + 1)"

text \<open>
  The binary exponent of a positive real: the least \<open>e\<close> from \<open>-1022\<close> (the exponent of
  the subnormal numbers) to \<open>1023\<close> with \<open>x < 2 powi (e + 1)\<close>, and \<open>1024\<close> beyond.
\<close>

definition exponent :: "real \<Rightarrow> int" where
  "exponent x =
     (case find (\<lambda>e. x < 2 powi (e + 1)) [- 1022..1023] of Some e \<Rightarrow> e | None \<Rightarrow> 1024)"

text \<open>
  A positive real rounded to 53 significant bits: the spacing of the doubles with the
  exponent \<open>e\<close> is \<open>2 powi (e - 52)\<close>. A result of \<open>2 powi 1024\<close> or more is an
  overflow, \<open>None\<close>.
\<close>

definition round_raw :: "real \<Rightarrow> real" where
  "round_raw x =
     (let ulp = 2 powi (exponent x - 52) in of_int (round_half_even (x / ulp)) * ulp)"

definition round_magnitude :: "real \<Rightarrow> real option" where
  "round_magnitude x = (let r = round_raw x in if 2 powi 1024 \<le> r then None else Some r)"

text \<open>A negative real that rounds to zero gives \<open>-0\<close>.\<close>

definition round_double :: "real \<Rightarrow> number" where
  "round_double x =
     (if x = 0 then Fin 0
      else if 0 < x then (case round_magnitude x of None \<Rightarrow> PInf | Some r \<Rightarrow> Fin r)
      else (case round_magnitude (- x) of
              None \<Rightarrow> NInf
            | Some r \<Rightarrow> if r = 0 then NegZero else Fin (- r)))"

fun is_finite :: "number \<Rightarrow> bool" where
  "is_finite (Fin _) = True"
| "is_finite NegZero = True"
| "is_finite _ = False"

fun real_of :: "number \<Rightarrow> real" where
  "real_of (Fin r) = r"
| "real_of _ = 0"

text \<open>The sign bit.\<close>

fun is_negative :: "number \<Rightarrow> bool" where
  "is_negative (Fin r) = (r < 0)"
| "is_negative NegZero = True"
| "is_negative NInf = True"
| "is_negative _ = False"

definition signed_zero :: "bool \<Rightarrow> number" where
  "signed_zero negative = (if negative then NegZero else Fin 0)"

definition signed_infinity :: "bool \<Rightarrow> number" where
  "signed_infinity negative = (if negative then NInf else PInf)"

fun num_neg :: "number \<Rightarrow> number" where
  "num_neg (Fin a) = (if a = 0 then NegZero else Fin (- a))"
| "num_neg NegZero = Fin 0"
| "num_neg PInf = NInf"
| "num_neg NInf = PInf"
| "num_neg NaN = NaN"

text \<open>
  The binary \<open>+\<close>: \<open>Infinity + -Infinity\<close> is \<open>NaN\<close>, and \<open>NaN\<close> is absorbing. An
  exact sum of zero is \<open>+0\<close>, unless both operands are \<open>-0\<close>.
\<close>

definition add_finite :: "number \<Rightarrow> number \<Rightarrow> number" where
  "add_finite a b =
     (let s = real_of a + real_of b
      in if s = 0 then (if a = NegZero \<and> b = NegZero then NegZero else Fin 0)
         else round_double s)"

fun num_add :: "number \<Rightarrow> number \<Rightarrow> number" where
  "num_add NaN _ = NaN"
| "num_add _ NaN = NaN"
| "num_add PInf NInf = NaN"
| "num_add NInf PInf = NaN"
| "num_add PInf _ = PInf"
| "num_add _ PInf = PInf"
| "num_add NInf _ = NInf"
| "num_add _ NInf = NInf"
| "num_add a b = add_finite a b"

definition num_sub :: "number \<Rightarrow> number \<Rightarrow> number" where
  "num_sub a b = num_add a (num_neg b)"

text \<open>
  The binary \<open>/\<close>: the sign of the result is the exclusive or of the sign bits; a
  non-zero value divided by a zero is an infinity, \<open>0 / 0\<close> and
  \<open>Infinity / Infinity\<close> are \<open>NaN\<close>, a finite value divided by an infinity is a zero.
\<close>

definition div_finite :: "number \<Rightarrow> number \<Rightarrow> number" where
  "div_finite a b =
     (let x = real_of a; y = real_of b; negative = (is_negative a \<noteq> is_negative b)
      in if y = 0 then (if x = 0 then NaN else signed_infinity negative)
         else if x = 0 then signed_zero negative
         else round_double (x / y))"

fun num_div :: "number \<Rightarrow> number \<Rightarrow> number" where
  "num_div NaN _ = NaN"
| "num_div _ NaN = NaN"
| "num_div PInf PInf = NaN"
| "num_div PInf NInf = NaN"
| "num_div NInf PInf = NaN"
| "num_div NInf NInf = NaN"
| "num_div PInf b = signed_infinity (is_negative b)"
| "num_div NInf b = signed_infinity (\<not> is_negative b)"
| "num_div a PInf = signed_zero (is_negative a)"
| "num_div a NInf = signed_zero (\<not> is_negative a)"
| "num_div a b = div_finite a b"

text \<open>
  The comparison \<open>a > b\<close>: false as soon as one side is \<open>NaN\<close>; the two zeros are
  equal.
\<close>

fun num_gt :: "number \<Rightarrow> number \<Rightarrow> bool" where
  "num_gt NaN _ = False"
| "num_gt _ NaN = False"
| "num_gt PInf PInf = False"
| "num_gt PInf _ = True"
| "num_gt _ PInf = False"
| "num_gt NInf _ = False"
| "num_gt _ NInf = True"
| "num_gt a b = (real_of b < real_of a)"

text \<open>
  \<open>Math.max\<close> and \<open>Math.min\<close> of two arguments: \<open>NaN\<close> if either is \<open>NaN\<close>; \<open>+0\<close>
  counts as larger than \<open>-0\<close>.
\<close>

fun Math_max :: "number \<Rightarrow> number \<Rightarrow> number" where
  "Math_max NaN _ = NaN"
| "Math_max _ NaN = NaN"
| "Math_max a b = (if num_gt b a then b else if num_gt a b then a
                    else if a = NegZero then b else a)"

fun Math_min :: "number \<Rightarrow> number \<Rightarrow> number" where
  "Math_min NaN _ = NaN"
| "Math_min _ NaN = NaN"
| "Math_min a b = (if num_gt a b then b else if num_gt b a then a
                    else if a = NegZero then a else b)"

section \<open>Errors\<close>

text \<open>A thrown JavaScript \<open>Error\<close> with its message.\<close>

datatype error = Error string

section \<open>EEG samples and feature extraction\<close>

text \<open>
  The object with the eight channels is a record; \<open>EegChannelData\<close> extends it with
  the timestamp, so that the channel selectors read a sample and the accumulator of
  \<open>extractFeatures\<close> alike.
\<close>

record Channels =
  eeg1 :: number
  eeg2 :: number
  eeg3 :: number
  eeg4 :: number
  eeg5 :: number
  eeg6 :: number
  eeg7 :: number
  eeg8 :: number

record EegChannelData = Channels +
  timestamp :: number

text \<open>
  A \<open>Record<string, number>\<close> is the list of its own properties in insertion order,
  which is the order of \<open>Object.keys\<close>.
\<close>

type_synonym features = "(string \<times> number) list"

definition entries :: "'a Channels_scheme \<Rightarrow> features" where
  "entries c =
     [(''eeg1'', eeg1 c), (''eeg2'', eeg2 c), (''eeg3'', eeg3 c), (''eeg4'', eeg4 c),
      (''eeg5'', eeg5 c), (''eeg6'', eeg6 c), (''eeg7'', eeg7 c), (''eeg8'', eeg8 c)]"

definition zero_features :: Channels where
  "zero_features =
     \<lparr>eeg1 = Fin 0, eeg2 = Fin 0, eeg3 = Fin 0, eeg4 = Fin 0,
      eeg5 = Fin 0, eeg6 = Fin 0, eeg7 = Fin 0, eeg8 = Fin 0\<rparr>"

text \<open>The body of the \<open>forEach\<close>: \<open>features.eegK += sample.eegK / eegData.length\<close>.\<close>

definition accumulate :: "number \<Rightarrow> Channels \<Rightarrow> EegChannelData \<Rightarrow> Channels" where
  "accumulate n f sample =
     \<lparr>eeg1 = num_add (eeg1 f) (num_div (eeg1 sample) n),
      eeg2 = num_add (eeg2 f) (num_div (eeg2 sample) n),
      eeg3 = num_add (eeg3 f) (num_div (eeg3 sample) n),
      eeg4 = num_add (eeg4 f) (num_div (eeg4 sample) n),
      eeg5 = num_add (eeg5 f) (num_div (eeg5 sample) n),
      eeg6 = num_add (eeg6 f) (num_div (eeg6 sample) n),
      eeg7 = num_add (eeg7 f) (num_div (eeg7 sample) n),
      eeg8 = num_add (eeg8 f) (num_div (eeg8 sample) n)\<rparr>"

definition extractFeatures :: "EegChannelData list \<Rightarrow> error + features" where
  "extractFeatures eegData =
     (if length eegData = 0
      then Inl (Error ''No EEG data provided for feature extraction'')
      else Inr (entries
        (foldl (accumulate (Fin (real (length eegData)))) zero_features eegData)))"

section \<open>Normalization\<close>

text \<open>
  \<open>normalizeFeatures\<close> copies the object and replaces every value \<open>v\<close> by
  \<open>Math.max(0, Math.min(1, (v - min) / (max - min)))\<close>; the parameters \<open>min\<close> and
  \<open>max\<close> are \<open>lo\<close> and \<open>hi\<close> here. It has no \<open>throw\<close>; the result type carries
  the error alternative so that this can be stated.
\<close>

definition normalizeValue :: "number \<Rightarrow> number \<Rightarrow> number \<Rightarrow> number" where
  "normalizeValue lo hi v =
     Math_max (Fin 0) (Math_min (Fin 1) (num_div (num_sub v lo) (num_sub hi lo)))"

definition normalizeFeatures :: "features \<Rightarrow> number \<Rightarrow> number \<Rightarrow> error + features" where
  "normalizeFeatures fs lo hi = Inr (map (\<lambda>(k, v). (k, normalizeValue lo hi v)) fs)"

section \<open>Classification\<close>

definition EMOTIONS :: "string list" where
  "EMOTIONS = [''happy'', ''sad'', ''angry'', ''calm'', ''fear'', ''surprise'', ''neutral'']"

text \<open>
  The object returned by the network's \<open>run\<close>: a score for a label, or \<open>None\<close> where
  the property is \<open>undefined\<close>. The network itself is the library \<open>brain.js\<close>, so
  \<open>run\<close> is a parameter; \<open>Inl\<close> is an exception thrown by it.
\<close>

type_synonym scores = "string \<Rightarrow> number option"

type_synonym classifier = "features \<Rightarrow> error + scores"

text \<open>
  The loop \<open>EMOTIONS.forEach(emotion => { if (result[emotion] > highestScore) ... })\<close>,
  written twice in the source (in the hook and in the monitor component), on the pair
  \<open>(highestScore, detectedEmotion)\<close>. A comparison with \<open>undefined\<close> is false.
\<close>

definition pick :: "scores \<Rightarrow> number \<times> string \<Rightarrow> string \<Rightarrow> number \<times> string" where
  "pick result acc emotion =
     (case result emotion of
        Some s \<Rightarrow> if num_gt s (fst acc) then (s, emotion) else acc
      | None \<Rightarrow> acc)"

definition detectedEmotion :: "scores \<Rightarrow> string" where
  "detectedEmotion result = snd (foldl (pick result) (Fin 0, ''neutral'') EMOTIONS)"

text \<open>The body of the \<open>try\<close> block of \<open>classify\<close>; \<open>normalizeFeatures\<close> takes its defaults.\<close>

definition classify_try :: "classifier \<Rightarrow> EegChannelData list \<Rightarrow> error + string" where
  "classify_try run eegData =
     (case extractFeatures eegData of
        Inl e \<Rightarrow> Inl e
      | Inr fs \<Rightarrow>
          (case normalizeFeatures fs (Fin (- 50)) (Fin 50) of
             Inl e \<Rightarrow> Inl e
           | Inr normalizedFeatures \<Rightarrow>
               (case run normalizedFeatures of
                  Inl e \<Rightarrow> Inl e
                | Inr result \<Rightarrow> Inr (detectedEmotion result))))"

text \<open>
  \<open>classify\<close> of the hook: the state \<open>classifier\<close> is \<open>None\<close> while it is \<open>null\<close>. The
  result is the settled promise: \<open>Inr\<close> a label, \<open>Inl\<close> a rejection.
\<close>

definition classify :: "classifier option \<Rightarrow> bool \<Rightarrow> EegChannelData list \<Rightarrow> error + string" where
  "classify classifier isReady eegData =
     (case classifier of
        None \<Rightarrow> Inr ''neutral''
      | Some run \<Rightarrow>
          if \<not> isReady then Inr ''neutral''
          else (case classify_try run eegData of
                  Inl e \<Rightarrow> Inr ''neutral''
                | Inr emotion \<Rightarrow> Inr emotion))"

text \<open>
  \<open>classifyEmotion\<close> of the monitor component averages the buffer, maps every average
  \<open>v\<close> to \<open>(v + 50) / 100\<close> without clamping (the object \<open>averageData\<close> after the
  two loops), and hands the label to \<open>onEmotionDetected\<close>. The result is the label
  handed over, \<open>None\<close> when the function returns early or catches an exception.
\<close>

definition averageData :: "EegChannelData list \<Rightarrow> features" where
  "averageData buffer =
     map (\<lambda>(k, v). (k, num_div (num_add v (Fin 50)) (Fin 100)))
       (entries (foldl (accumulate (Fin (real (length buffer)))) zero_features buffer))"

definition classifyEmotion :: "classifier option \<Rightarrow> EegChannelData list \<Rightarrow> string option" where
  "classifyEmotion emotionClassifier buffer =
     (case emotionClassifier of
        None \<Rightarrow> None
      | Some run \<Rightarrow>
          if length buffer = 0 then None
          else (case run (averageData buffer) of
                  Inl e \<Rightarrow> None
                | Inr result \<Rightarrow> Some (detectedEmotion result)))"

section \<open>Lookup tables\<close>

text \<open>
  Reading a property of an object literal: an own property if there is one, otherwise
  what the object inherits from \<open>Object.prototype\<close> (a function, or the prototype
  itself for \<open>__proto__\<close>), otherwise \<open>undefined\<close> (\<open>None\<close>).
\<close>

datatype jsvalue = Str string | Inherited string

definition Object_prototype :: "string list" where
  "Object_prototype =
     [''constructor'', ''hasOwnProperty'', ''isPrototypeOf'', ''propertyIsEnumerable'',
      ''toLocaleString'', ''toString'', ''valueOf'', ''__proto__'',
      ''__defineGetter__'', ''__defineSetter__'', ''__lookupGetter__'', ''__lookupSetter__'']"

definition getProperty :: "(string \<times> string) list \<Rightarrow> string \<Rightarrow> jsvalue option" where
  "getProperty obj key =
     (case map_of obj key of
        Some v \<Rightarrow> Some (Str v)
      | None \<Rightarrow> if key \<in> set Object_prototype then Some (Inherited key) else None)"

text \<open>\<open>v || d\<close>: \<open>undefined\<close> and the empty string are falsy, every object is truthy.\<close>

fun or_default :: "jsvalue option \<Rightarrow> string \<Rightarrow> jsvalue" where
  "or_default None d = Str d"
| "or_default (Some (Str s)) d = (if s = [] then Str d else Str s)"
| "or_default (Some (Inherited k)) d = Inherited k"

definition emotionToGenre :: "(string \<times> string) list" where
  "emotionToGenre =
     [(''happy'', ''upbeat happy music''),
      (''sad'', ''melancholic piano music''),
      (''angry'', ''calming ambient music''),
      (''calm'', ''relaxing meditation music''),
      (''fear'', ''soothing acoustic music''),
      (''surprise'', ''inspirational orchestral music''),
      (''neutral'', ''lofi study beats'')]"

text \<open>The parameter is \<open>string | null\<close>; \<open>!emotion\<close> holds of \<open>null\<close> and of the empty string.\<close>

definition getRecommendedGenre :: "string option \<Rightarrow> jsvalue" where
  "getRecommendedGenre emotion =
     (case emotion of
        None \<Rightarrow> Str ''lofi study beats''
      | Some e \<Rightarrow>
          if e = [] then Str ''lofi study beats''
          else or_default (getProperty emotionToGenre e) ''lofi study beats'')"

definition descriptions :: "(string \<times> string) list" where
  "descriptions =
     [(''happy'', ''Uplifting tunes to boost your happiness''),
      (''sad'', ''Comforting melodies for reflection''),
      (''angry'', ''Calming sounds to ease tension''),
      (''calm'', ''Peaceful ambient music to maintain tranquility''),
      (''fear'', ''Soothing melodies to provide reassurance''),
      (''surprise'', ''Inspirational music for this moment of wonder''),
      (''neutral'', ''Pleasant background music for focus'')]"

definition getEmotionMusicDescription :: "string option \<Rightarrow> jsvalue" where
  "getEmotionMusicDescription emotion =
     (case emotion of
        None \<Rightarrow> Str ''Music to match your mood''
      | Some e \<Rightarrow>
          if e = [] then Str ''Music to match your mood''
          else or_default (getProperty descriptions e) ''Music to match your mood'')"

definition emotionToTone :: "(string \<times> string) list" where
  "emotionToTone =
     [(''happy'', ''enthusiastic and upbeat''),
      (''sad'', ''empathetic and comforting''),
      (''angry'', ''calm and de-escalating''),
      (''calm'', ''peaceful and measured''),
      (''fear'', ''reassuring and supportive''),
      (''surprise'', ''engaged and attentive''),
      (''neutral'', ''balanced and informative'')]"

text \<open>
  The constant \<open>tone\<close> of \<open>sendMessageToLLM\<close>:
  \<open>currentEmotion ? emotionToTone[currentEmotion] || 'neutral and helpful' : 'neutral and helpful'\<close>.
\<close>

definition tone :: "string option \<Rightarrow> jsvalue" where
  "tone currentEmotion =
     (case currentEmotion of
        None \<Rightarrow> Str ''neutral and helpful''
      | Some e \<Rightarrow>
          if e = [] then Str ''neutral and helpful''
          else or_default (getProperty emotionToTone e) ''neutral and helpful'')"

section \<open>Track source\<close>

record YouTubeTrack =
  id' :: string
  title :: string
  thumbnail :: "string option"

definition track :: "string \<Rightarrow> string \<Rightarrow> YouTubeTrack" where
  "track i t = \<lparr>id' = i, title = t, thumbnail = None\<rparr>"

text \<open>The fallback table, in the insertion order that \<open>Object.keys\<close> follows.\<close>

definition fallbackTracks :: "(string \<times> YouTubeTrack list) list" where
  "fallbackTracks =
     [(''upbeat happy music'',
         [track ''dQw4w9WgXcQ'' ''Happy Vibes'',
          track ''y6120QOlsfU'' ''Uplifting Rhythm'',
          track ''L_jWHffIx5E'' ''Sunny Day'']),
      (''melancholic piano music'',
         [track ''rR94NDIfGmA'' ''Rainy Day Piano'',
          track ''4N3N1MlvVc4'' ''Melancholy Sonata'',
          track ''wAPCSnAhhC8'' ''Nostalgic Memories'']),
      (''calming ambient music'',
         [track ''DWcJFNfaw9c'' ''Tranquil Waters'',
          track ''lTRiuFIWV54'' ''Forest Ambience'',
          track ''hHW1oY26kxQ'' ''Peaceful Horizon'']),
      (''relaxing meditation music'',
         [track ''5qap5aO4i9A'' ''Zen Garden'',
          track ''DfG6VKnjrVw'' ''Inner Peace'',
          track ''lFcSrYw-ARY'' ''Mindful Moments'']),
      (''soothing acoustic music'',
         [track ''jdYJf_ybyVo'' ''Gentle Guitar'',
          track ''HSOtku1j600'' ''Acoustic Dreams'',
          track ''KkOF8UiB7u8'' ''Campfire Melodies'']),
      (''inspirational orchestral music'',
         [track ''oN2Xs-MvxLw'' ''Epic Journey'',
          track ''FK30dkXOTck'' ''New Horizons'',
          track ''XYKUeZQbMF0'' ''Awakening'']),
      (''lofi study beats'',
         [track ''5qap5aO4i9A'' ''Chill Beats to Study To'',
          track ''bmVKaAV_7-A'' ''Lofi Cafe'',
          track ''DWcJFNfaw9c'' ''Late Night Study Session''])]"

text \<open>
  \<open>String.prototype.toLowerCase\<close> on the ASCII letters; the other characters of a
  \<open>string\<close> (bytes here) are kept.
\<close>

definition toLowerCase_char :: "char \<Rightarrow> char" where
  "toLowerCase_char c =
     (let n = (of_char c :: nat) in if 65 \<le> n \<and> n \<le> 90 then char_of (n + 32) else c)"

definition toLowerCase :: "string \<Rightarrow> string" where
  "toLowerCase s = map toLowerCase_char s"

text \<open>\<open>s.includes(t)\<close>: \<open>t\<close> occurs in \<open>s\<close> as a contiguous substring.\<close>

fun startsWith :: "'a list \<Rightarrow> 'a list \<Rightarrow> bool" where
  "startsWith s [] = True"
| "startsWith [] (y # t) = False"
| "startsWith (x # s) (y # t) = (x = y \<and> startsWith s t)"

fun str_includes :: "'a list \<Rightarrow> 'a list \<Rightarrow> bool" where
  "str_includes [] t = (t = [])"
| "str_includes (x # s) t = (startsWith (x # s) t \<or> str_includes s t)"

text \<open>The \<open>for\<close> loop over the keys of the table, returning at the first match.\<close>

fun firstMatch :: "string \<Rightarrow> (string \<times> YouTubeTrack list) list \<Rightarrow> YouTubeTrack list option" where
  "firstMatch normalizedGenre [] = None"
| "firstMatch normalizedGenre ((key, tracks) # rest) =
     (if str_includes normalizedGenre key \<or> str_includes key normalizedGenre then Some tracks
      else firstMatch normalizedGenre rest)"

text \<open>
  The \<open>catch\<close> block of \<open>searchYouTubeVideos\<close>. \<open>None\<close> is \<open>undefined\<close>, the value of
  a table lookup at a missing key.
\<close>

definition fallback :: "string \<Rightarrow> YouTubeTrack list option" where
  "fallback genre =
     (let normalizedGenre = toLowerCase genre
      in case firstMatch normalizedGenre fallbackTracks of
           Some tracks \<Rightarrow> Some tracks
         | None \<Rightarrow> map_of fallbackTracks ''lofi study beats'')"

text \<open>
  The remote call is a parameter: \<open>Inl\<close> when \<open>axios.get\<close> throws (network failure or
  an error status), otherwise \<open>response.data.tracks\<close>, \<open>None\<close> when it is missing.
\<close>

definition searchYouTubeVideos ::
  "(string \<Rightarrow> error + YouTubeTrack list option) \<Rightarrow> string \<Rightarrow> YouTubeTrack list option" where
  "searchYouTubeVideos get genre =
     (case get genre of
        Inr (Some tracks) \<Rightarrow> Some tracks
      | Inr None \<Rightarrow> Some []
      | Inl e \<Rightarrow> fallback genre)"

section \<open>Sample buffer\<close>

text \<open>\<open>Array.prototype.slice(start)\<close>: a negative \<open>start\<close> counts from the end.\<close>

definition slice :: "'a list \<Rightarrow> int \<Rightarrow> 'a list" where
  "slice xs start =
     (let len = int (length xs);
          k = (if start < 0 then max (len + start) 0 else min start len)
      in drop (nat k) xs)"

text \<open>
  The state that the interval callback of \<open>connectToUnicorn\<close> writes: the buffer behind
  the ref \<open>dataBuffer\<close> and the displayed samples \<open>eegData\<close>.
\<close>

record MonitorState =
  dataBuffer :: "EegChannelData list"
  eegData :: "EegChannelData list"

definition initialState :: MonitorState where
  "initialState = \<lparr>dataBuffer = [], eegData = []\<rparr>"

text \<open>One run of the callback on the sample \<open>newData\<close> that the generator produced.\<close>

definition connectToUnicorn_interval :: "MonitorState \<Rightarrow> EegChannelData \<Rightarrow> MonitorState" where
  "connectToUnicorn_interval st newData =
     \<lparr>dataBuffer = slice (dataBuffer st @ [newData]) (- 100),
      eegData = slice (eegData st @ [newData]) (- 10)\<rparr>"

section \<open>Notions of the specification and example inputs\<close>

text \<open>\<open>t\<close> is a contiguous part of \<open>s\<close>.\<close>

definition is_substring :: "'a list \<Rightarrow> 'a list \<Rightarrow> bool" where
  "is_substring t s = (\<exists>p q. s = p @ t @ q)"

text \<open>A string with its ASCII letters in upper case.\<close>

definition toUpperCase_char :: "char \<Rightarrow> char" where
  "toUpperCase_char c =
     (let n = (of_char c :: nat) in if 97 \<le> n \<and> n \<le> 122 then char_of (n - 32) else c)"

definition toUpperCase :: "string \<Rightarrow> string" where
  "toUpperCase s = map toUpperCase_char s"

text \<open>The arithmetic mean of real numbers.\<close>

definition mean :: "real list \<Rightarrow> real" where
  "mean xs = sum_list xs / real (length xs)"

text \<open>
  What the loop of \<open>extractFeatures\<close> computes for one channel: starting from 0, every
  value divided by the number of values is added, each operation rounded.
\<close>

definition running_average :: "number list \<Rightarrow> number" where
  "running_average vs =
     foldl (\<lambda>a v. num_add a (num_div v (Fin (real (length vs))))) (Fin 0) vs"

text \<open>
  The tolerance of the running average of \<open>n\<close> values of magnitude at most \<open>M\<close>:
  \<open>n + 1\<close> roundings of relative size \<open>2 powi (- 52)\<close>, and the underflow of the
  divisions.
\<close>

definition tolerance :: "nat \<Rightarrow> real \<Rightarrow> real" where
  "tolerance n M = (real n + 1) * M * 2 powi (- 52) + 2 powi (- 1041)"

text \<open>The eight channel keys, each with the field of a sample that it names.\<close>

definition channels :: "(string \<times> (EegChannelData \<Rightarrow> number)) list" where
  "channels =
     [(''eeg1'', eeg1), (''eeg2'', eeg2), (''eeg3'', eeg3), (''eeg4'', eeg4),
      (''eeg5'', eeg5), (''eeg6'', eeg6), (''eeg7'', eeg7), (''eeg8'', eeg8)]"

text \<open>Every channel value of the sample is finite and of magnitude at most \<open>M\<close>.\<close>

definition bounded_sample :: "real \<Rightarrow> EegChannelData \<Rightarrow> bool" where
  "bounded_sample M s =
     list_all (\<lambda>(key, channel). is_finite (channel s) \<and> \<bar>real_of (channel s)\<bar> \<le> M) channels"

text \<open>\<open>Number.MAX_VALUE\<close>, the largest finite double.\<close>

definition MAX_VALUE :: real where
  "MAX_VALUE = (2 ^ 53 - 1) * 2 ^ 971"

text \<open>A number that is a double: rounding a finite value gives the value back.\<close>

fun representable :: "number \<Rightarrow> bool" where
  "representable (Fin r) = (round_double r = Fin r)"
| "representable _ = True"

text \<open>The comparison \<open>a <= b\<close>.\<close>

definition num_le :: "number \<Rightarrow> number \<Rightarrow> bool" where
  "num_le a b = (a \<noteq> NaN \<and> b \<noteq> NaN \<and> \<not> num_gt a b)"

fun in_unit :: "number \<Rightarrow> bool" where
  "in_unit (Fin r) = (0 \<le> r \<and> r \<le> 1)"
| "in_unit _ = False"

text \<open>
  The score of a label as a real number, and the label that the specification selects:
  the first one, in the order of \<open>EMOTIONS\<close>, that no other label exceeds.
\<close>

definition score :: "scores \<Rightarrow> string \<Rightarrow> real" where
  "score result emotion = (case result emotion of Some v \<Rightarrow> real_of v | None \<Rightarrow> 0)"

definition first_highest :: "scores \<Rightarrow> string option" where
  "first_highest result =
     find (\<lambda>emotion. list_all (\<lambda>other. score result other \<le> score result emotion) EMOTIONS)
       EMOTIONS"

text \<open>
  The network is built with \<open>activation: 'sigmoid'\<close> and trained on outputs for all
  seven labels, so it returns for every label a score strictly between 0 and 1.
\<close>

definition sigmoid_scores :: "scores \<Rightarrow> bool" where
  "sigmoid_scores result =
     list_all (\<lambda>emotion. case result emotion of
                            Some (Fin s) \<Rightarrow> 0 < s \<and> s < 1
                          | _ \<Rightarrow> False) EMOTIONS"

definition example_scores :: scores where
  "example_scores =
     map_of [(''happy'', Fin (1 / 5)), (''sad'', Fin (9 / 10)), (''angry'', Fin (9 / 10)),
             (''calm'', Fin (1 / 10)), (''fear'', Fin (3 / 10)), (''surprise'', Fin (1 / 20)),
             (''neutral'', Fin (2 / 5))]"

definition example_run :: classifier where
  "example_run fs = Inr example_scores"

definition throwing_run :: classifier where
  "throwing_run fs = Inl (Error ''Cannot read properties of undefined'')"

definition sample_a :: EegChannelData where
  "sample_a =
     \<lparr>eeg1 = Fin 40, eeg2 = Fin 30, eeg3 = Fin 25, eeg4 = Fin 20,
      eeg5 = Fin 15, eeg6 = Fin 15, eeg7 = Fin 10, eeg8 = Fin 10, timestamp = Fin 0\<rparr>"

definition sample_b :: EegChannelData where
  "sample_b =
     \<lparr>eeg1 = Fin 20, eeg2 = Fin 10, eeg3 = Fin (- 25), eeg4 = Fin 0,
      eeg5 = Fin 5, eeg6 = Fin (- 15), eeg7 = Fin 30, eeg8 = Fin 60, timestamp = Fin 100\<rparr>"

text \<open>A sample with the given reading on the first channel and 0 on the others.\<close>

definition sample_of :: "real \<Rightarrow> EegChannelData" where
  "sample_of x =
     \<lparr>eeg1 = Fin x, eeg2 = Fin 0, eeg3 = Fin 0, eeg4 = Fin 0,
      eeg5 = Fin 0, eeg6 = Fin 0, eeg7 = Fin 0, eeg8 = Fin 0, timestamp = Fin 0\<rparr>"

definition failing_get :: "string \<Rightarrow> error + YouTubeTrack list option" where
  "failing_get query = Inl (Error ''Network Error'')"

section \<open>Feature extraction on the empty window\<close>

text \<open>
  Claim C4. \<open>extractFeatures\<close> applied to the empty sample sequence throws (the error
  with the message "No EEG data provided for feature extraction") instead of returning
  a value, and applied to a non-empty sequence it returns a feature vector.
\<close>

theorem extractFeatures_empty_input:
  "extractFeatures [] = Inl (Error ''No EEG data provided for feature extraction'')
   \<and> (samples \<noteq> [] \<longrightarrow> (\<exists>fs. extractFeatures samples = Inr fs))"
  by (simp add: extractFeatures_def)

theorem extractFeatures_empty_input_witness:
  "[sample_a, sample_b] \<noteq> [] \<and> (\<exists>fs. extractFeatures [sample_a, sample_b] = Inr fs)"
  using extractFeatures_empty_input [of "[sample_a, sample_b]"] by simp

section \<open>The fallback of the track source\<close>

lemma startsWith_iff: "startsWith s t \<longleftrightarrow> (\<exists>q. s = t @ q)"
  by (induction s t rule: startsWith.induct) auto

lemma str_includes_iff: "str_includes s t \<longleftrightarrow> is_substring t s"
proof (induction s)
  case Nil
  then show ?case by (auto simp: is_substring_def)
next
  case (Cons x s)
  show ?case
  proof
    assume "str_includes (x # s) t"
    then consider "startsWith (x # s) t" | "str_includes s t" by auto
    then show "is_substring t (x # s)"
    proof cases
      case 1
      then obtain q where "x # s = t @ q" by (auto simp: startsWith_iff)
      then have "x # s = [] @ t @ q" by simp
      then show ?thesis unfolding is_substring_def by blast
    next
      case 2
      with Cons.IH obtain p q where "s = p @ t @ q" by (auto simp: is_substring_def)
      then have "x # s = (x # p) @ t @ q" by simp
      then show ?thesis unfolding is_substring_def by blast
    qed
  next
    assume "is_substring t (x # s)"
    then obtain p q where pq: "x # s = p @ t @ q" by (auto simp: is_substring_def)
    show "str_includes (x # s) t"
    proof (cases p)
      case Nil
      with pq have "startsWith (x # s) t" by (auto simp: startsWith_iff)
      then show ?thesis by simp
    next
      case (Cons y p')
      with pq have "s = p' @ t @ q" by simp
      then have "is_substring t s" unfolding is_substring_def by blast
      with Cons.IH show ?thesis by simp
    qed
  qed
qed

lemma firstMatch_find:
  "firstMatch n tbl =
     map_option snd (find (\<lambda>(key, tracks). is_substring key n \<or> is_substring n key) tbl)"
  by (induction n tbl rule: firstMatch.induct) (simp_all add: str_includes_iff)

lemma fallback_find:
  "fallback genre =
     (case find (\<lambda>(key, tracks). is_substring key (toLowerCase genre)
                    \<or> is_substring (toLowerCase genre) key) fallbackTracks of
        Some (key, tracks) \<Rightarrow> Some tracks
      | None \<Rightarrow> map_of fallbackTracks ''lofi study beats'')"
  by (simp add: fallback_def firstMatch_find split: option.splits)

lemma fallback_upbeat:
  "fallback ''upbeat happy music'' =
     Some [track ''dQw4w9WgXcQ'' ''Happy Vibes'', track ''y6120QOlsfU'' ''Uplifting Rhythm'',
           track ''L_jWHffIx5E'' ''Sunny Day'']"
  by (simp add: fallback_def toLowerCase_def toLowerCase_char_def fallbackTracks_def)

lemma fallback_unrecognized:
  "fallback ''xyz nonsense'' =
     Some [track ''5qap5aO4i9A'' ''Chill Beats to Study To'', track ''bmVKaAV_7-A'' ''Lofi Cafe'',
           track ''DWcJFNfaw9c'' ''Late Night Study Session'']"
  by (simp add: fallback_def toLowerCase_def toLowerCase_char_def fallbackTracks_def)

lemma fallback_empty:
  "fallback '''' =
     Some [track ''dQw4w9WgXcQ'' ''Happy Vibes'', track ''y6120QOlsfU'' ''Uplifting Rhythm'',
           track ''L_jWHffIx5E'' ''Sunny Day'']"
  by (simp add: fallback_def toLowerCase_def fallbackTracks_def)

lemma lookup_upbeat:
  "map_of fallbackTracks ''upbeat happy music'' =
     Some [track ''dQw4w9WgXcQ'' ''Happy Vibes'', track ''y6120QOlsfU'' ''Uplifting Rhythm'',
           track ''L_jWHffIx5E'' ''Sunny Day'']"
  by (simp add: fallbackTracks_def)

lemma lookup_lofi:
  "map_of fallbackTracks ''lofi study beats'' =
     Some [track ''5qap5aO4i9A'' ''Chill Beats to Study To'', track ''bmVKaAV_7-A'' ''Lofi Cafe'',
           track ''DWcJFNfaw9c'' ''Late Night Study Session'']"
  by (simp add: fallbackTracks_def)

lemma lookup_piano:
  "map_of fallbackTracks ''melancholic piano music'' =
     Some [track ''rR94NDIfGmA'' ''Rainy Day Piano'', track ''4N3N1MlvVc4'' ''Melancholy Sonata'',
           track ''wAPCSnAhhC8'' ''Nostalgic Memories'']"
  by (simp add: fallbackTracks_def)

lemma toLowerCase_upper_query:
  "toLowerCase ''UPBEAT Happy Music'' = ''upbeat happy music''"
  by code_simp

lemma fallback_upper_query:
  "fallback ''UPBEAT Happy Music'' =
     Some [track ''dQw4w9WgXcQ'' ''Happy Vibes'', track ''y6120QOlsfU'' ''Uplifting Rhythm'',
           track ''L_jWHffIx5E'' ''Sunny Day'']"
  by code_simp

lemma fallback_upper_part:
  "fallback ''PIANO'' =
     Some [track ''rR94NDIfGmA'' ''Rainy Day Piano'', track ''4N3N1MlvVc4'' ''Melancholy Sonata'',
           track ''wAPCSnAhhC8'' ''Nostalgic Memories'']"
  by code_simp

lemma fallback_upper_longer:
  "fallback ''Some LoFi Study Beats, please'' =
     Some [track ''5qap5aO4i9A'' ''Chill Beats to Study To'', track ''bmVKaAV_7-A'' ''Lofi Cafe'',
           track ''DWcJFNfaw9c'' ''Late Night Study Session'']"
  by code_simp

lemma toLowerCase_toUpperCase_char:
  "toLowerCase_char (toUpperCase_char c) = toLowerCase_char c"
proof (cases "97 \<le> (of_char c :: nat) \<and> (of_char c :: nat) \<le> 122")
  case True
  define n where "n = (of_char c :: nat)"
  define k where "k = n - 32"
  from True have n: "97 \<le> n" "n \<le> 122" by (simp_all add: n_def)
  then have k: "65 \<le> k" "k \<le> 90" "k + 32 = n" "k mod 256 = k" by (simp_all add: k_def)
  have u: "toUpperCase_char c = char_of k"
    using n by (simp add: toUpperCase_char_def n_def [symmetric] k_def)
  have "(of_char (char_of k) :: nat) = k" by (simp only: of_char_of k)
  then have "toLowerCase_char (char_of k) = char_of (k + 32)"
    using k by (simp add: toLowerCase_char_def)
  also have "\<dots> = c" by (simp only: k n_def char_of_comp_of_char id_apply) simp
  finally have "toLowerCase_char (toUpperCase_char c) = c" by (simp only: u)
  moreover have "toLowerCase_char c = c"
    using n by (simp add: toLowerCase_char_def n_def [symmetric])
  ultimately show ?thesis by simp
next
  case False
  then show ?thesis by (auto simp add: toUpperCase_char_def Let_def)
qed

lemma toLowerCase_toUpperCase: "toLowerCase (toUpperCase s) = toLowerCase s"
  by (simp add: toLowerCase_def toUpperCase_def toLowerCase_toUpperCase_char)

lemma fallback_toUpperCase: "fallback (toUpperCase genre) = fallback genre"
  by (simp add: fallback_def toLowerCase_toUpperCase)

text \<open>
  Claim C8. When the remote call fails, \<open>searchYouTubeVideos\<close> returns for the query
  "upbeat happy music" the three fallback tracks whose first id is \<open>dQw4w9WgXcQ\<close>, and
  for the query "xyz nonsense" the list stored under "lofi study beats". The match
  folds the case of the query: "UPBEAT Happy Music" is folded to the first key and gets
  its list, "PIANO" gets the list of the key that contains "piano", a longer query in
  mixed case gets the list of the key it contains, and a query in upper case gets what
  the query itself gets. For every query the result is the list of the first table
  key, in table order, that is a substring of the lower-cased query or contains it,
  and the "lofi study beats" list when no key is.
\<close>

theorem searchYouTubeVideos_fallback:
  assumes "\<forall>query. get query = Inl e"
  shows "searchYouTubeVideos get ''upbeat happy music'' =
           Some [track ''dQw4w9WgXcQ'' ''Happy Vibes'', track ''y6120QOlsfU'' ''Uplifting Rhythm'',
                 track ''L_jWHffIx5E'' ''Sunny Day'']
         \<and> searchYouTubeVideos get ''xyz nonsense'' = map_of fallbackTracks ''lofi study beats''
         \<and> searchYouTubeVideos get ''xyz nonsense'' =
           Some [track ''5qap5aO4i9A'' ''Chill Beats to Study To'', track ''bmVKaAV_7-A'' ''Lofi Cafe'',
                 track ''DWcJFNfaw9c'' ''Late Night Study Session'']
         \<and> toLowerCase ''UPBEAT Happy Music'' = ''upbeat happy music''
         \<and> searchYouTubeVideos get ''UPBEAT Happy Music'' =
           map_of fallbackTracks ''upbeat happy music''
         \<and> searchYouTubeVideos get ''PIANO'' = map_of fallbackTracks ''melancholic piano music''
         \<and> searchYouTubeVideos get ''Some LoFi Study Beats, please'' =
           map_of fallbackTracks ''lofi study beats''
         \<and> searchYouTubeVideos get (toUpperCase genre) = searchYouTubeVideos get genre
         \<and> searchYouTubeVideos get genre =
           (case find (\<lambda>(key, tracks). is_substring key (toLowerCase genre)
                          \<or> is_substring (toLowerCase genre) key) fallbackTracks of
              Some (key, tracks) \<Rightarrow> Some tracks
            | None \<Rightarrow> map_of fallbackTracks ''lofi study beats'')"
proof -
  have "searchYouTubeVideos get q = fallback q" for q
    using assms by (simp add: searchYouTubeVideos_def)
  then show ?thesis
    using fallback_upbeat fallback_unrecognized lookup_lofi lookup_upbeat lookup_piano
      toLowerCase_upper_query fallback_upper_query fallback_upper_part fallback_upper_longer
      fallback_toUpperCase [of genre] fallback_find [of genre]
    by simp
qed

theorem searchYouTubeVideos_fallback_witness:
  "(\<forall>query. failing_get query = Inl (Error ''Network Error''))
   \<and> searchYouTubeVideos failing_get ''upbeat happy music'' =
       Some [track ''dQw4w9WgXcQ'' ''Happy Vibes'', track ''y6120QOlsfU'' ''Uplifting Rhythm'',
             track ''L_jWHffIx5E'' ''Sunny Day'']
   \<and> searchYouTubeVideos failing_get ''xyz nonsense'' = map_of fallbackTracks ''lofi study beats''
   \<and> searchYouTubeVideos failing_get ''UPBEAT Happy Music'' =
       map_of fallbackTracks ''upbeat happy music''
   \<and> searchYouTubeVideos failing_get ''PIANO'' = map_of fallbackTracks ''melancholic piano music''
   \<and> searchYouTubeVideos failing_get (toUpperCase ''lofi'') = searchYouTubeVideos failing_get ''lofi''"
proof -
  have h: "\<forall>query. failing_get query = Inl (Error ''Network Error'')"
    by (simp add: failing_get_def)
  note t = searchYouTubeVideos_fallback
    [of failing_get "Error ''Network Error''" "''lofi''"]
  from h t show ?thesis by blast
qed

text \<open>
  Claim C10. When the remote call fails on the empty query, \<open>searchYouTubeVideos\<close>
  returns the list stored under "upbeat happy music", the first key of the table, and
  not the "lofi study beats" list: the empty string is a substring of every key.
\<close>

theorem searchYouTubeVideos_empty_query:
  assumes "get '''' = Inl e"
  shows "searchYouTubeVideos get '''' = map_of fallbackTracks ''upbeat happy music''
         \<and> searchYouTubeVideos get '''' \<noteq> map_of fallbackTracks ''lofi study beats''
         \<and> fst (hd fallbackTracks) = ''upbeat happy music''
         \<and> toLowerCase '''' = ''''
         \<and> str_includes key ''''"
proof -
  have "searchYouTubeVideos get '''' = fallback ''''"
    using assms by (simp add: searchYouTubeVideos_def)
  moreover have "fst (hd fallbackTracks) = ''upbeat happy music''"
    by (simp add: fallbackTracks_def)
  moreover have "str_includes key ''''"
    by (cases key) simp_all
  moreover have "map_of fallbackTracks ''upbeat happy music''
      \<noteq> map_of fallbackTracks ''lofi study beats''"
    by (simp add: lookup_upbeat lookup_lofi track_def)
  ultimately show ?thesis
    by (simp add: fallback_empty lookup_upbeat toLowerCase_def)
qed

theorem searchYouTubeVideos_empty_query_witness:
  "failing_get '''' = Inl (Error ''Network Error'')
   \<and> searchYouTubeVideos failing_get '''' = map_of fallbackTracks ''upbeat happy music''
   \<and> searchYouTubeVideos failing_get '''' \<noteq> map_of fallbackTracks ''lofi study beats''"
proof -
  have h: "failing_get '''' = Inl (Error ''Network Error'')"
    by (simp add: failing_get_def)
  note t = searchYouTubeVideos_empty_query [of failing_get "Error ''Network Error''"]
  from h t show ?thesis by blast
qed

section \<open>The sample buffer\<close>

lemma slice_neg: "0 < n \<Longrightarrow> slice xs (- int n) = drop (length xs - n) xs"
  by (auto simp: slice_def Let_def max_def nat_diff_distrib')

lemma dataBuffer_interval:
  "dataBuffer (connectToUnicorn_interval st x)
     = drop (Suc (length (dataBuffer st)) - 100) (dataBuffer st @ [x])"
  using slice_neg [of 100 "dataBuffer st @ [x]"] by simp (simp add: connectToUnicorn_interval_def)

lemma dataBuffer_foldl:
  "length (dataBuffer st) \<le> 100 \<Longrightarrow>
     dataBuffer (foldl connectToUnicorn_interval st xs)
       = drop (length (dataBuffer st) + length xs - 100) (dataBuffer st @ xs)"
proof (induction xs arbitrary: st)
  case Nil
  then show ?case by simp
next
  case (Cons x xs)
  let ?b = "dataBuffer st"
  let ?m = "Suc (length ?b) - 100"
  have b': "dataBuffer (connectToUnicorn_interval st x) = drop ?m (?b @ [x])"
    by (rule dataBuffer_interval)
  have len: "length (dataBuffer (connectToUnicorn_interval st x)) \<le> 100"
    using Cons.prems by (simp add: b')
  have "dataBuffer (foldl connectToUnicorn_interval st (x # xs))
      = dataBuffer (foldl connectToUnicorn_interval (connectToUnicorn_interval st x) xs)"
    by simp
  also have "\<dots> = drop (length (dataBuffer (connectToUnicorn_interval st x)) + length xs - 100)
                     (dataBuffer (connectToUnicorn_interval st x) @ xs)"
    by (rule Cons.IH [OF len])
  also have "\<dots> = drop (length ?b + length (x # xs) - 100) (?b @ x # xs)"
  proof (cases "length ?b < 100")
    case True
    then have "dataBuffer (connectToUnicorn_interval st x) = ?b @ [x]" by (simp add: b')
    then show ?thesis by simp
  next
    case False
    with Cons.prems have l: "length ?b = 100" by simp
    then have "dataBuffer (connectToUnicorn_interval st x) = drop 1 (?b @ [x])" by (simp add: b')
    then have "dataBuffer (connectToUnicorn_interval st x) @ xs = drop 1 (?b @ x # xs)"
      and "length (dataBuffer (connectToUnicorn_interval st x)) = 100" using l by simp_all
    then show ?thesis using l by simp
  qed
  finally show ?case .
qed

text \<open>
  Claim C9. The buffer behind \<open>dataBuffer\<close> starts empty, and after the callback has
  appended the samples \<open>samples\<close> (in this order) it holds exactly the last
  \<open>min (length samples) 100\<close> of them, in order; its length never exceeds 100. One
  append to a full buffer drops the oldest sample and puts the new one at the end.
\<close>

theorem dataBuffer_bounded_fifo:
  "dataBuffer (foldl connectToUnicorn_interval initialState samples)
     = drop (length samples - 100) samples
   \<and> length (dataBuffer (foldl connectToUnicorn_interval initialState samples))
     = min (length samples) 100
   \<and> length (dataBuffer (foldl connectToUnicorn_interval initialState samples)) \<le> 100
   \<and> (length (dataBuffer st) = 100 \<longrightarrow>
        dataBuffer (connectToUnicorn_interval st newData) = tl (dataBuffer st) @ [newData])"
proof -
  have a: "dataBuffer (foldl connectToUnicorn_interval initialState samples)
      = drop (length samples - 100) samples"
    using dataBuffer_foldl [of initialState samples] by (simp add: initialState_def)
  have b: "dataBuffer (connectToUnicorn_interval st newData) = tl (dataBuffer st) @ [newData]"
    if "length (dataBuffer st) = 100"
  proof -
    from that have "dataBuffer st \<noteq> []" by auto
    with that show ?thesis by (simp add: dataBuffer_interval drop_Suc)
  qed
  from a b show ?thesis by auto
qed

theorem dataBuffer_bounded_fifo_witness:
  "length (dataBuffer \<lparr>dataBuffer = replicate 100 sample_a, eegData = []\<rparr>) = 100
   \<and> dataBuffer (connectToUnicorn_interval
         \<lparr>dataBuffer = replicate 100 sample_a, eegData = []\<rparr> sample_b)
       = replicate 99 sample_a @ [sample_b]"
proof -
  have "tl (replicate 100 sample_a) = replicate 99 sample_a"
    by (simp add: tl_replicate)
  then show ?thesis
    using dataBuffer_bounded_fifo
      [of "[]" "\<lparr>dataBuffer = replicate 100 sample_a, eegData = []\<rparr>" sample_b]
    by simp
qed

section \<open>Rounding to the nearest double\<close>

text \<open>
  Rounding to an integer is within one half of the argument and monotone; the exponent
  of a positive real brackets it between two powers of two.
\<close>

lemma rhe_bounds: "\<bar>of_int (round_half_even y) - y\<bar> \<le> 1 / 2"
  unfolding round_half_even_def Let_def by (auto simp: abs_if) linarith+

lemma rhe_floor: "round_half_even y = \<lfloor>y\<rfloor> \<or> round_half_even y = \<lfloor>y\<rfloor> + 1"
  unfolding round_half_even_def Let_def by auto

lemma rhe_of_int [simp]: "round_half_even (of_int k) = k"
  unfolding round_half_even_def Let_def by simp

lemma rhe_mono: "x \<le> y \<Longrightarrow> round_half_even x \<le> round_half_even y"
proof -
  assume xy: "x \<le> y"
  then have fl: "\<lfloor>x\<rfloor> \<le> \<lfloor>y\<rfloor>" by (rule floor_mono)
  show ?thesis
  proof (cases "\<lfloor>x\<rfloor> = \<lfloor>y\<rfloor>")
    case True
    with xy show ?thesis unfolding round_half_even_def Let_def by auto
  next
    case False
    with fl have "\<lfloor>x\<rfloor> + 1 \<le> \<lfloor>y\<rfloor>" by simp
    moreover have "round_half_even x \<le> \<lfloor>x\<rfloor> + 1" using rhe_floor [of x] by auto
    moreover have "\<lfloor>y\<rfloor> \<le> round_half_even y" using rhe_floor [of y] by auto
    ultimately show ?thesis by linarith
  qed
qed

lemma exponent_props:
  shows "- 1022 \<le> exponent x" and "exponent x \<le> 1024"
    and "exponent x \<le> 1023 \<Longrightarrow> x < 2 powi (exponent x + 1)"
    and "- 1022 < exponent x \<Longrightarrow> 2 powi exponent x \<le> x"
proof -
  let ?P = "\<lambda>e. x < 2 powi (e + 1)"
  define xs :: "int list" where "xs = [- 1022..1023]"
  have set_xs: "set xs = {- 1022..1023}" unfolding xs_def by (simp only: set_upto)
  have len_xs: "length xs = 2046" unfolding xs_def by (simp only: length_upto)
  have nth_xs: "xs ! k = - 1022 + int k" if "k < 2046" for k
    unfolding xs_def using that by (intro nth_upto) simp
  have ex_def: "exponent x = (case find ?P xs of Some e \<Rightarrow> e | None \<Rightarrow> 1024)"
    unfolding xs_def exponent_def ..
  have all: "- 1022 \<le> exponent x \<and> exponent x \<le> 1024
      \<and> (exponent x \<le> 1023 \<longrightarrow> x < 2 powi (exponent x + 1))
      \<and> (- 1022 < exponent x \<longrightarrow> 2 powi exponent x \<le> x)"
  proof (cases "find ?P xs")
    case None
    then have e: "exponent x = 1024" by (simp add: ex_def)
    have "1023 \<in> set xs" unfolding set_xs by simp
    with None have "\<not> ?P 1023" unfolding find_None_iff by blast
    then show ?thesis using e by simp
  next
    case (Some e)
    then have ex: "exponent x = e" by (simp add: ex_def)
    from Some obtain i where i: "i < length xs" "?P (xs ! i)" "e = xs ! i"
      "\<forall>j<i. \<not> ?P (xs ! j)" unfolding find_Some_iff by blast
    from i(1) have il: "i < 2046" by (simp add: len_xs)
    then have nth: "xs ! i = - 1022 + int i" by (rule nth_xs)
    have lo: "2 powi e \<le> x" if "- 1022 < e"
    proof -
      from that nth i(3) have "0 < i" by simp
      then have j: "i - 1 < i" by simp
      have "xs ! (i - 1) = - 1022 + int (i - 1)" using il by (intro nth_xs) simp
      with \<open>0 < i\<close> nth i(3) have "xs ! (i - 1) + 1 = e" by simp
      with i(4) j show ?thesis by (metis not_less)
    qed
    from nth i(2,3) il lo show ?thesis unfolding ex by auto
  qed
  from all show "- 1022 \<le> exponent x" "exponent x \<le> 1024" by simp_all
  from all show "exponent x \<le> 1023 \<Longrightarrow> x < 2 powi (exponent x + 1)" by simp
  from all show "- 1022 < exponent x \<Longrightarrow> 2 powi exponent x \<le> x" by simp
qed

lemma exponent_normal:
  assumes "2 powi e \<le> x" "x < 2 powi (e + 1)" "- 1022 \<le> e" "e \<le> 1023"
  shows "exponent x = e"
proof (rule ccontr)
  assume ne: "exponent x \<noteq> e"
  show False
  proof (cases "exponent x < e")
    case True
    then have "exponent x \<le> 1023" using assms by simp
    then have "x < 2 powi (exponent x + 1)" by (rule exponent_props)
    moreover from True have "(2::real) powi (exponent x + 1) \<le> 2 powi e"
      by (intro power_int_increasing) simp_all
    ultimately show False using assms(1) by linarith
  next
    case False
    with ne have gt: "e + 1 \<le> exponent x" by simp
    with assms have "- 1022 < exponent x" by simp
    then have "2 powi exponent x \<le> x" by (rule exponent_props)
    moreover from gt have "(2::real) powi (e + 1) \<le> 2 powi exponent x"
      by (intro power_int_increasing) simp_all
    ultimately show False using assms(2) by linarith
  qed
qed

lemma exponent_subnormal:
  assumes "x < 2 powi (- 1021)"
  shows "exponent x = - 1022"
proof (rule ccontr)
  assume "exponent x \<noteq> - 1022"
  with exponent_props(1) [of x] have gt: "- 1021 \<le> exponent x" by simp
  then have "2 powi exponent x \<le> x" by (intro exponent_props) simp
  moreover from gt have "(2::real) powi (- 1021) \<le> 2 powi exponent x"
    by (intro power_int_increasing) simp_all
  ultimately show False using assms by linarith
qed

lemma exponent_overflow:
  assumes "2 powi 1024 \<le> x"
  shows "exponent x = 1024"
proof (rule ccontr)
  assume "exponent x \<noteq> 1024"
  with exponent_props(2) [of x] have le: "exponent x \<le> 1023" by simp
  then have "x < 2 powi (exponent x + 1)" by (rule exponent_props)
  moreover from le have "(2::real) powi (exponent x + 1) \<le> 2 powi 1024"
    by (intro power_int_increasing) simp_all
  ultimately show False using assms by linarith
qed

lemma exponent_mono:
  assumes "0 < x" "x \<le> y"
  shows "exponent x \<le> exponent y"
proof (rule ccontr)
  assume "\<not> exponent x \<le> exponent y"
  then have lt: "exponent y + 1 \<le> exponent x" by simp
  with exponent_props(1) [of y] have "- 1022 < exponent x" by simp
  then have "2 powi exponent x \<le> x" by (rule exponent_props)
  moreover from lt exponent_props(2) [of x] have "exponent y \<le> 1023" by simp
  then have "y < 2 powi (exponent y + 1)" by (rule exponent_props)
  moreover from lt have "(2::real) powi (exponent y + 1) \<le> 2 powi exponent x"
    by (intro power_int_increasing) simp_all
  ultimately show False using assms by linarith
qed

lemma powi2_add: "(2::real) powi a * 2 powi b = 2 powi (a + b)"
  by (simp add: power_int_add)

lemma round_raw_err:
  "\<bar>round_raw x - x\<bar> \<le> 2 powi (exponent x - 52) / 2"
proof -
  let ?ulp = "(2::real) powi (exponent x - 52)"
  have pos: "0 < ?ulp" by simp
  have "round_raw x - x = (of_int (round_half_even (x / ?ulp)) - x / ?ulp) * ?ulp"
    using pos by (simp add: round_raw_def Let_def left_diff_distrib)
  then have "\<bar>round_raw x - x\<bar> = \<bar>of_int (round_half_even (x / ?ulp)) - x / ?ulp\<bar> * ?ulp"
    using pos by (simp add: abs_mult)
  also have "\<dots> \<le> (1 / 2) * ?ulp"
    using rhe_bounds [of "x / ?ulp"] pos by (intro mult_right_mono) simp_all
  finally show ?thesis by simp
qed

lemma half_ulp_bound:
  assumes "0 < x"
  shows "2 powi (exponent x - 52) / 2 \<le> 2 powi (- 53) * x + 2 powi (- 1075)"
proof (cases "- 1022 < exponent x")
  case True
  then have "2 powi exponent x \<le> x" by (rule exponent_props)
  then have "2 powi (- 53) * 2 powi exponent x \<le> 2 powi (- 53) * x"
    by (intro mult_left_mono) simp_all
  moreover have "(2::real) powi (exponent x - 52) / 2 = 2 powi (- 53) * 2 powi exponent x"
    by (simp add: powi2_add power_int_diff)
  ultimately show ?thesis by simp
next
  case False
  with exponent_props(1) [of x] have "exponent x = - 1022" by simp
  then have "(2::real) powi (exponent x - 52) / 2 = 2 powi (- 1075)"
    by (simp add: power_int_diff)
  with assms show ?thesis by simp
qed

lemma round_raw_nonneg:
  assumes "0 \<le> x"
  shows "0 \<le> round_raw x"
proof -
  let ?ulp = "(2::real) powi (exponent x - 52)"
  have "0 \<le> x / ?ulp" using assms by simp
  then have "round_half_even 0 \<le> round_half_even (x / ?ulp)" by (rule rhe_mono)
  then have "0 \<le> round_half_even (x / ?ulp)" using rhe_of_int [of 0] by simp
  then show ?thesis by (simp add: round_raw_def Let_def)
qed

lemma round_raw_mono:
  assumes "0 < x" "x \<le> y"
  shows "round_raw x \<le> round_raw y"
proof -
  let ?ex = "exponent x" and ?ey = "exponent y"
  let ?ux = "(2::real) powi (?ex - 52)" and ?uy = "(2::real) powi (?ey - 52)"
  from assms have le: "?ex \<le> ?ey" by (rule exponent_mono)
  show ?thesis
  proof (cases "?ex = ?ey")
    case True
    have "x / ?uy \<le> y / ?uy" using assms by (simp add: divide_right_mono)
    then have "round_half_even (x / ?uy) \<le> round_half_even (y / ?uy)" by (rule rhe_mono)
    then have "of_int (round_half_even (x / ?uy)) * ?uy \<le> of_int (round_half_even (y / ?uy)) * ?uy"
      by (intro mult_right_mono) simp_all
    then show ?thesis by (simp add: round_raw_def Let_def True)
  next
    case False
    with le have lt: "?ex + 1 \<le> ?ey" by simp
    with exponent_props(2) [of y] have "?ex \<le> 1023" by simp
    then have "x < 2 powi (?ex + 1)" by (rule exponent_props)
    then have "x / ?ux \<le> 2 powi (?ex + 1) / ?ux" by (simp add: divide_right_mono)
    also have "2 powi (?ex + 1) / ?ux = (2::real) powi 53"
      by (simp add: power_int_diff [symmetric])
    also have "\<dots> = of_int (2 ^ 53)" by simp
    finally have "round_half_even (x / ?ux) \<le> round_half_even (of_int (2 ^ 53))" by (rule rhe_mono)
    then have "round_half_even (x / ?ux) \<le> 2 ^ 53" by (simp only: rhe_of_int)
    then have "(of_int (round_half_even (x / ?ux)) :: real) \<le> of_int (2 ^ 53)"
      by (simp only: of_int_le_iff)
    then have "of_int (round_half_even (x / ?ux)) * ?ux \<le> of_int (2 ^ 53) * ?ux"
      by (intro mult_right_mono) simp_all
    also have "of_int (2 ^ 53) * ?ux = (2::real) powi 53 * ?ux" by simp
    also have "\<dots> = 2 powi (53 + (?ex - 52))" by (simp only: powi2_add)
    also have "53 + (?ex - 52) = ?ex + 1" by simp
    finally have rx: "round_raw x \<le> 2 powi (?ex + 1)" by (simp add: round_raw_def Let_def)
    from lt exponent_props(1) [of x] have "- 1022 < ?ey" by simp
    then have "2 powi ?ey \<le> y" by (rule exponent_props)
    then have "2 powi ?ey / ?uy \<le> y / ?uy" by (simp add: divide_right_mono)
    moreover have "2 powi ?ey / ?uy = (2::real) powi 52"
      by (simp add: power_int_diff [symmetric])
    moreover have "(2::real) powi 52 = of_int (2 ^ 52)" by simp
    ultimately have "of_int (2 ^ 52) \<le> y / ?uy" by simp
    then have "round_half_even (of_int (2 ^ 52)) \<le> round_half_even (y / ?uy)" by (rule rhe_mono)
    then have "2 ^ 52 \<le> round_half_even (y / ?uy)" by (simp only: rhe_of_int)
    then have "(of_int (2 ^ 52) :: real) \<le> of_int (round_half_even (y / ?uy))"
      by (simp only: of_int_le_iff)
    then have m: "of_int (2 ^ 52) * ?uy \<le> of_int (round_half_even (y / ?uy)) * ?uy"
      by (intro mult_right_mono) simp_all
    have "?ey = 52 + (?ey - 52)" by simp
    then have "(2::real) powi ?ey = 2 powi (52 + (?ey - 52))" by simp
    also have "\<dots> = 2 powi 52 * ?uy" by (simp only: powi2_add)
    also have "\<dots> = of_int (2 ^ 52) * ?uy" by simp
    also note m
    also have "of_int (round_half_even (y / ?uy)) * ?uy = round_raw y"
      by (simp add: round_raw_def Let_def)
    finally have ry: "2 powi ?ey \<le> round_raw y" .
    from lt have "(2::real) powi (?ex + 1) \<le> 2 powi ?ey"
      by (intro power_int_increasing) simp_all
    with rx ry show ?thesis by linarith
  qed
qed

text \<open>
  Rounding to a double: the sign cases, monotonicity, the values that are kept, and the
  error of one rounding, which is at most \<open>2 powi (- 53)\<close> times the magnitude of the
  argument plus \<open>2 powi (- 1075)\<close> for a result that is subnormal.
\<close>

lemma round_double_pos:
  assumes "0 < x"
  shows "round_double x = (if 2 powi 1024 \<le> round_raw x then PInf else Fin (round_raw x))"
  using assms by (simp add: round_double_def round_magnitude_def Let_def)

lemma round_double_neg:
  assumes "x < 0"
  shows "round_double x =
    (if 2 powi 1024 \<le> round_raw (- x) then NInf
     else if round_raw (- x) = 0 then NegZero else Fin (- round_raw (- x)))"
  using assms by (simp add: round_double_def round_magnitude_def Let_def)

lemma round_double_mono:
  assumes "0 < x" "x \<le> y" "round_double x = Fin a"
  shows "round_double y = PInf \<or> (\<exists>b. round_double y = Fin b \<and> a \<le> b)"
proof -
  from assms have y: "0 < y" by simp
  from assms(1,3) have a: "a = round_raw x"
    by (simp add: round_double_pos split: if_splits)
  from assms(1,2) have "round_raw x \<le> round_raw y" by (rule round_raw_mono)
  with a y show ?thesis by (simp add: round_double_pos)
qed

lemma round_raw_exact:
  assumes "2 powi e \<le> x" "x < 2 powi (e + 1)" "- 1022 \<le> e" "e \<le> 1023"
    and "x / 2 powi (e - 52) = of_int k"
  shows "round_raw x = x"
proof -
  from assms(1-4) have "exponent x = e" by (rule exponent_normal)
  then have "round_raw x = of_int k * 2 powi (e - 52)"
    using assms(5) by (simp add: round_raw_def Let_def)
  also have "\<dots> = x" using assms(5) by (simp add: field_simps)
  finally show ?thesis .
qed

lemma round_raw_1: "round_raw 1 = 1"
  by (rule round_raw_exact [where e = 0 and k = "2 ^ 52"]) simp_all

lemma round_double_1: "round_double 1 = Fin 1"
  by (simp add: round_double_pos round_raw_1)

lemma round_double_ge_1:
  assumes "1 \<le> x"
  shows "round_double x = PInf \<or> (\<exists>b. round_double x = Fin b \<and> 1 \<le> b)"
  using round_double_mono [OF _ assms round_double_1] by simp

lemma round_double_unit:
  assumes "0 < x" "x \<le> 1"
  shows "\<exists>a. round_double x = Fin a \<and> 0 \<le> a \<and> a \<le> 1"
proof -
  from assms have "round_raw x \<le> round_raw 1" by (rule round_raw_mono)
  then have le: "round_raw x \<le> 1" by (simp add: round_raw_1)
  moreover have "0 \<le> round_raw x" using assms(1) by (intro round_raw_nonneg) simp
  moreover have "\<not> 2 powi 1024 \<le> round_raw x" using le by simp
  ultimately show ?thesis using assms(1) by (simp add: round_double_pos)
qed

lemma round_double_negative:
  assumes "x < 0"
  shows "round_double x = NInf \<or> round_double x = NegZero
           \<or> (\<exists>a. round_double x = Fin a \<and> a < 0)"
proof -
  have "0 \<le> round_raw (- x)" using assms by (intro round_raw_nonneg) simp
  then show ?thesis using assms by (auto simp: round_double_neg)
qed

lemma round_double_positive:
  assumes "0 < x"
  shows "round_double x = PInf \<or> (\<exists>a. round_double x = Fin a \<and> 0 \<le> a)"
proof -
  have "0 \<le> round_raw x" using assms by (intro round_raw_nonneg) simp
  then show ?thesis using assms by (auto simp: round_double_pos)
qed

lemma round_raw_close:
  assumes "0 < x"
  shows "\<bar>round_raw x - x\<bar> \<le> 2 powi (- 53) * x + 2 powi (- 1075)"
  using round_raw_err [of x] half_ulp_bound [OF assms] by linarith

lemma round_raw_no_overflow:
  assumes "0 < x" "x \<le> 2 powi 1023"
  shows "round_raw x < 2 powi 1024"
proof -
  have "round_raw x \<le> x + (2 powi (- 53) * x + 2 powi (- 1075))"
    using round_raw_close [OF assms(1)] by linarith
  also have "\<dots> \<le> 2 powi 1023 + (2 powi (- 53) * 2 powi 1023 + 2 powi (- 1075))"
    using assms(2) by (intro add_mono mult_left_mono) simp_all
  also have "\<dots> < 2 powi 1024" by simp
  finally show ?thesis .
qed

lemma round_double_close:
  assumes "\<bar>x\<bar> \<le> 2 powi 1023"
  shows "is_finite (round_double x)
    \<and> \<bar>real_of (round_double x) - x\<bar> \<le> 2 powi (- 53) * \<bar>x\<bar> + 2 powi (- 1075)"
proof -
  consider "x = 0" | "0 < x" | "x < 0" by linarith
  then show ?thesis
  proof cases
    case 1
    then show ?thesis by (simp add: round_double_def)
  next
    case 2
    with assms have "round_raw x < 2 powi 1024" by (intro round_raw_no_overflow) simp_all
    with 2 have "round_double x = Fin (round_raw x)" by (simp add: round_double_pos)
    with round_raw_close [OF 2] 2 show ?thesis by simp
  next
    case 3
    then have p: "0 < - x" by simp
    with assms have "round_raw (- x) < 2 powi 1024" by (intro round_raw_no_overflow) simp_all
    with 3 have r: "round_double x = (if round_raw (- x) = 0 then NegZero else Fin (- round_raw (- x)))"
      by (simp add: round_double_neg)
    have "\<bar>real_of (round_double x) - x\<bar> = \<bar>round_raw (- x) - (- x)\<bar>"
      using 3 unfolding r by (auto simp: abs_if)
    with round_raw_close [OF p] 3 r show ?thesis by simp
  qed
qed

lemma round_double_eval:
  assumes "2 powi e \<le> x" "x < 2 powi (e + 1)" "- 1022 \<le> e" "e \<le> 1023"
  shows "round_double x =
    (if 2 powi 1024 \<le> (of_int (round_half_even (x / 2 powi (e - 52))) * 2 powi (e - 52) :: real)
     then PInf else Fin (of_int (round_half_even (x / 2 powi (e - 52))) * 2 powi (e - 52)))"
proof -
  have "(0::real) < 2 powi e" by simp
  with assms(1) have pos: "0 < x" by linarith
  from assms have "exponent x = e" by (rule exponent_normal)
  then have "round_raw x = of_int (round_half_even (x / 2 powi (e - 52))) * 2 powi (e - 52)"
    by (simp add: round_raw_def Let_def)
  with pos show ?thesis by (simp add: round_double_pos)
qed

lemma round_double_exact:
  assumes "2 powi e \<le> \<bar>x\<bar>" "\<bar>x\<bar> < 2 powi (e + 1)" "- 1022 \<le> e" "e \<le> 1023"
    and "\<bar>x\<bar> / 2 powi (e - 52) = of_int k"
  shows "round_double x = Fin x"
proof -
  have "(0::real) < 2 powi e" by simp
  with assms(1) have nz: "0 < \<bar>x\<bar>" by linarith
  have r: "round_raw \<bar>x\<bar> = \<bar>x\<bar>" using assms by (rule round_raw_exact)
  have "(2::real) powi (e + 1) \<le> 2 powi 1024"
    using assms(4) by (intro power_int_increasing) simp_all
  with assms(2) have small: "\<not> 2 powi 1024 \<le> \<bar>x\<bar>" by linarith
  show ?thesis
  proof (cases "0 < x")
    case True
    with r small show ?thesis by (simp add: round_double_pos)
  next
    case False
    with nz have neg: "x < 0" by simp
    then have "\<bar>x\<bar> = - x" by simp
    with r small neg show ?thesis by (simp add: round_double_neg)
  qed
qed

lemma round_double_overflow:
  assumes "2 powi 1024 \<le> x"
  shows "round_double x = PInf"
proof -
  have "(0::real) < 2 powi 1024" by simp
  with assms have pos: "0 < x" by linarith
  have "exponent (2 powi 1024 :: real) = 1024" by (rule exponent_overflow) simp
  then have "round_raw (2 powi 1024) = of_int (round_half_even (of_int (2 ^ 52))) * 2 powi 972"
    by (simp add: round_raw_def Let_def)
  then have "round_raw (2 powi 1024) = 2 powi 1024" by (simp only: rhe_of_int) simp
  moreover have "round_raw (2 powi 1024) \<le> round_raw x"
    by (rule round_raw_mono [OF _ assms]) simp
  ultimately have "2 powi 1024 \<le> round_raw x" by simp
  with pos show ?thesis by (simp add: round_double_pos)
qed

lemma rd_50: "round_double (- 50) = Fin (- 50)"
  by (rule round_double_exact [where e = 5 and k = "50 * 2 ^ 47"]) simp_all

lemma rd_100: "round_double (- 100) = Fin (- 100)"
  by (rule round_double_exact [where e = 6 and k = "100 * 2 ^ 46"]) simp_all

lemma rd_half: "round_double (1 / 2) = Fin (1 / 2)"
  by (rule round_double_exact [where e = "- 1" and k = "2 ^ 52"]) simp_all

lemma rd_10: "round_double 10 = Fin 10"
  by (rule round_double_exact [where e = 3 and k = "10 * 2 ^ 49"]) simp_all

lemma rd_5: "round_double 5 = Fin 5"
  by (rule round_double_exact [where e = 2 and k = "5 * 2 ^ 50"]) simp_all

lemma rd_15: "round_double 15 = Fin 15"
  by (rule round_double_exact [where e = 3 and k = "15 * 2 ^ 49"]) simp_all

lemma rd_20: "round_double 20 = Fin 20"
  by (rule round_double_exact [where e = 4 and k = "20 * 2 ^ 48"]) simp_all

lemma rd_30: "round_double 30 = Fin 30"
  by (rule round_double_exact [where e = 4 and k = "30 * 2 ^ 48"]) simp_all

lemma rd_35: "round_double 35 = Fin 35"
  by (rule round_double_exact [where e = 5 and k = "35 * 2 ^ 47"]) simp_all

lemma rd_50_pos: "round_double 50 = Fin 50"
  by (rule round_double_exact [where e = 5 and k = "50 * 2 ^ 47"]) simp_all

lemma rd_75: "round_double 75 = Fin 75"
  by (rule round_double_exact [where e = 6 and k = "75 * 2 ^ 46"]) simp_all

lemma rd_100_pos: "round_double 100 = Fin 100"
  by (rule round_double_exact [where e = 6 and k = "100 * 2 ^ 46"]) simp_all

lemma rd_3_4: "round_double (3 / 4) = Fin (3 / 4)"
  by (rule round_double_exact [where e = "- 1" and k = "3 * 2 ^ 51"]) simp_all

lemma rd_5_2: "round_double (5 / 2) = Fin (5 / 2)"
  by (rule round_double_exact [where e = 1 and k = "5 * 2 ^ 50"]) simp_all

lemma rd_15_2: "round_double (15 / 2) = Fin (15 / 2)"
  by (rule round_double_exact [where e = 2 and k = "15 * 2 ^ 49"]) simp_all

lemma rd_25_2: "round_double (25 / 2) = Fin (25 / 2)"
  by (rule round_double_exact [where e = 3 and k = "25 * 2 ^ 48"]) simp_all

lemma rd_15_2_neg: "round_double (- (15 / 2)) = Fin (- (15 / 2))"
  by (rule round_double_exact [where e = 2 and k = "15 * 2 ^ 49"]) simp_all

lemma rd_25_2_neg: "round_double (- (25 / 2)) = Fin (- (25 / 2))"
  by (rule round_double_exact [where e = 3 and k = "25 * 2 ^ 48"]) simp_all

lemma rd_10_16: "round_double (10 ^ 16) = Fin (10 ^ 16)"
  by (rule round_double_exact [where e = 53 and k = "5 * 10 ^ 15"]) simp_all

lemma rd_10_16_neg: "round_double (- (10 ^ 16)) = Fin (- (10 ^ 16))"
  by (rule round_double_exact [where e = 53 and k = "5 * 10 ^ 15"]) simp_all

lemma rd_MAX: "round_double MAX_VALUE = Fin MAX_VALUE"
  by (rule round_double_exact [where e = 1023 and k = "2 ^ 53 - 1"]) (simp_all add: MAX_VALUE_def)

lemma rd_MAX_neg: "round_double (- MAX_VALUE) = Fin (- MAX_VALUE)"
  by (rule round_double_exact [where e = 1023 and k = "2 ^ 53 - 1"]) (simp_all add: MAX_VALUE_def)

lemmas rd_examples =
  rd_5 rd_10 rd_15 rd_20 rd_30 rd_35 rd_50 rd_50_pos rd_75 rd_100 rd_100_pos rd_half rd_3_4
  rd_5_2 rd_15_2 rd_25_2 rd_15_2_neg rd_25_2_neg round_double_1

section \<open>Arithmetic on finite numbers and the clamp\<close>

lemma real_of_neg [simp]: "real_of (num_neg a) = - real_of a"
  by (cases a) simp_all

lemma is_finite_neg [simp]: "is_finite (num_neg a) = is_finite a"
  by (cases a) simp_all

lemma num_add_finite: "is_finite a \<Longrightarrow> is_finite b \<Longrightarrow> num_add a b = add_finite a b"
  by (cases a; cases b) simp_all

lemma num_div_finite: "is_finite a \<Longrightarrow> is_finite b \<Longrightarrow> num_div a b = div_finite a b"
  by (cases a; cases b) simp_all

lemma num_sub_finite:
  assumes "is_finite a" "is_finite b"
  shows "num_sub a b =
    (if real_of a - real_of b = 0
     then (if a = NegZero \<and> num_neg b = NegZero then NegZero else Fin 0)
     else round_double (real_of a - real_of b))"
  using assms by (simp add: num_sub_def num_add_finite add_finite_def)

lemma clamp_cases:
  "Math_max (Fin 0) (Math_min (Fin 1) PInf) = Fin 1"
  "Math_max (Fin 0) (Math_min (Fin 1) NInf) = Fin 0"
  "Math_max (Fin 0) (Math_min (Fin 1) NegZero) = Fin 0"
  "Math_max (Fin 0) (Math_min (Fin 1) (Fin r)) =
     (if 1 \<le> r then Fin 1 else if 0 \<le> r then Fin r else Fin 0)"
  "Math_max (Fin 0) (Math_min (Fin 1) NaN) = NaN"
  by auto

lemma clamp_unit: "q \<noteq> NaN \<Longrightarrow> in_unit (Math_max (Fin 0) (Math_min (Fin 1) q))"
  by (cases q) (simp_all only: clamp_cases, auto)

lemma clamp_high:
  assumes "q = PInf \<or> (\<exists>r. q = Fin r \<and> 1 \<le> r)"
  shows "Math_max (Fin 0) (Math_min (Fin 1) q) = Fin 1"
  using assms by (auto simp only: clamp_cases split: if_splits)

lemma clamp_low:
  assumes "q = NInf \<or> q = NegZero \<or> (\<exists>r. q = Fin r \<and> r \<le> 0)"
  shows "Math_max (Fin 0) (Math_min (Fin 1) q) = Fin 0"
  using assms by (auto simp only: clamp_cases split: if_splits)

text \<open>The difference of the bounds.\<close>

lemma positive_difference:
  assumes "is_finite lo" "is_finite hi" "num_sub hi lo = Fin d" "0 < d"
  shows "0 < real_of hi - real_of lo" and "round_double (real_of hi - real_of lo) = Fin d"
proof -
  let ?s = "real_of hi - real_of lo"
  from assms have ne: "?s \<noteq> 0" by (auto simp: num_sub_finite split: if_splits)
  with assms show r: "round_double ?s = Fin d" by (simp add: num_sub_finite)
  show "0 < ?s"
  proof (rule ccontr)
    assume "\<not> 0 < ?s"
    with ne have "?s < 0" by simp
    from round_double_negative [OF this] r assms(4) show False by auto
  qed
qed

lemma num_sub_not_NaN:
  assumes "is_finite lo" "v \<noteq> NaN"
  shows "num_sub v lo \<noteq> NaN"
proof (cases "is_finite v")
  case True
  have "round_double x \<noteq> NaN" for x
    by (simp add: round_double_def split: option.splits)
  with True assms show ?thesis by (simp add: num_sub_finite)
next
  case False
  with assms show ?thesis by (cases v; cases lo) (simp_all add: num_sub_def)
qed

lemma num_div_not_NaN:
  assumes "a \<noteq> NaN" "0 < d"
  shows "num_div a (Fin d) \<noteq> NaN"
proof -
  have "round_double x \<noteq> NaN" for x
    by (simp add: round_double_def split: option.splits)
  with assms show ?thesis
    by (cases a) (simp_all add: div_finite_def signed_zero_def signed_infinity_def Let_def)
qed

lemma normalizeValue_unit:
  assumes "is_finite lo" "num_sub hi lo = Fin d" "0 < d" "v \<noteq> NaN"
  shows "in_unit (normalizeValue lo hi v)"
  unfolding normalizeValue_def assms(2)
  by (intro clamp_unit num_div_not_NaN num_sub_not_NaN assms)

lemma div_ge_1:
  assumes "a = PInf \<or> (\<exists>r. a = Fin r \<and> d \<le> r)" "0 < d"
  shows "num_div a (Fin d) = PInf \<or> (\<exists>r. num_div a (Fin d) = Fin r \<and> 1 \<le> r)"
  using assms(1)
proof
  assume "a = PInf"
  then show ?thesis using assms(2) by (simp add: signed_infinity_def)
next
  assume "\<exists>r. a = Fin r \<and> d \<le> r"
  then obtain r where r: "a = Fin r" "d \<le> r" by blast
  with assms(2) have "1 \<le> r / d" by simp
  from round_double_ge_1 [OF this] r assms(2) show ?thesis
    by (simp add: div_finite_def Let_def)
qed

lemma div_le_0:
  assumes "a = NInf \<or> a = NegZero \<or> (\<exists>r. a = Fin r \<and> r \<le> 0)" "0 < d"
  shows "num_div a (Fin d) = NInf \<or> num_div a (Fin d) = NegZero
          \<or> (\<exists>r. num_div a (Fin d) = Fin r \<and> r \<le> 0)"
proof -
  consider "a = NInf" | "a = NegZero" | "a = Fin 0" | r where "a = Fin r" "r < 0"
    using assms(1) by (auto simp: less_le)
  then show ?thesis
  proof cases
    case 1 then show ?thesis using assms(2) by (simp add: signed_infinity_def)
  next
    case 2 then show ?thesis using assms(2) by (simp add: div_finite_def signed_zero_def)
  next
    case 3 then show ?thesis using assms(2) by (simp add: div_finite_def signed_zero_def)
  next
    case 4
    with assms(2) have "r / d < 0" by (simp add: divide_neg_pos)
    from round_double_negative [OF this] 4 assms(2) show ?thesis
      by (auto simp: div_finite_def Let_def)
  qed
qed

lemma normalizeValue_high:
  assumes "is_finite lo" "is_finite hi" "num_sub hi lo = Fin d" "0 < d"
    and "v \<noteq> NaN" "\<not> num_gt hi v"
  shows "normalizeValue lo hi v = Fin 1"
proof -
  note pd = positive_difference [OF assms(1-4)]
  have a: "num_sub v lo = PInf \<or> (\<exists>r. num_sub v lo = Fin r \<and> d \<le> r)"
  proof (cases "is_finite v")
    case True
    with assms(2,6) have "real_of hi \<le> real_of v" by (cases hi; cases v) simp_all
    then have le: "real_of hi - real_of lo \<le> real_of v - real_of lo" by simp
    with pd(1) have "real_of v - real_of lo \<noteq> 0" by simp
    then have "num_sub v lo = round_double (real_of v - real_of lo)"
      using True assms(1) by (simp add: num_sub_finite)
    with round_double_mono [OF pd(1) le pd(2)] show ?thesis by simp
  next
    case False
    with assms(2,5,6) have "v = PInf" by (cases hi; cases v) simp_all
    with assms(1) show ?thesis by (cases lo) (simp_all add: num_sub_def)
  qed
  show ?thesis unfolding normalizeValue_def assms(3)
    by (intro clamp_high div_ge_1 a assms(4))
qed

lemma normalizeValue_low:
  assumes "is_finite lo" "num_sub hi lo = Fin d" "0 < d"
    and "v \<noteq> NaN" "\<not> num_gt v lo"
  shows "normalizeValue lo hi v = Fin 0"
proof -
  have a: "num_sub v lo = NInf \<or> num_sub v lo = NegZero \<or> (\<exists>r. num_sub v lo = Fin r \<and> r \<le> 0)"
  proof (cases "is_finite v")
    case True
    with assms(1,5) have le: "real_of v - real_of lo \<le> 0" by (cases lo; cases v) simp_all
    show ?thesis
    proof (cases "real_of v - real_of lo = 0")
      case True
      with \<open>is_finite v\<close> assms(1) show ?thesis by (simp add: num_sub_finite)
    next
      case False
      with le have "real_of v - real_of lo < 0" by simp
      from round_double_negative [OF this] False \<open>is_finite v\<close> assms(1) show ?thesis
        by (auto simp: num_sub_finite)
    qed
  next
    case False
    with assms(1,4,5) have "v = NInf" by (cases lo; cases v) simp_all
    with assms(1) show ?thesis by (cases lo) (simp_all add: num_sub_def)
  qed
  have "num_div (num_sub v lo) (Fin d) = NInf \<or> num_div (num_sub v lo) (Fin d) = NegZero
          \<or> (\<exists>r. num_div (num_sub v lo) (Fin d) = Fin r \<and> r \<le> 0)"
    by (intro div_le_0 a assms(3))
  then show ?thesis unfolding normalizeValue_def assms(2) by (rule clamp_low)
qed

lemma round_raw_grid:
  "\<exists>k::int. round_raw x = of_int k * 2 powi (- 1074)"
proof -
  let ?e = "exponent x"
  have "0 \<le> ?e + 1022" using exponent_props(1) [of x] by simp
  then have "(2::real) powi (?e + 1022) = 2 ^ nat (?e + 1022)" by (rule power_int_nonneg_exp)
  also have "\<dots> = of_int (2 ^ nat (?e + 1022))" by simp
  finally have p: "(2::real) powi (?e + 1022) = of_int (2 ^ nat (?e + 1022))" .
  have "?e - 52 = (?e + 1022) + (- 1074)" by simp
  then have "(2::real) powi (?e - 52) = 2 powi ((?e + 1022) + (- 1074))" by simp
  also have "\<dots> = 2 powi (?e + 1022) * 2 powi (- 1074)" by (simp only: powi2_add)
  finally have "round_raw x =
      of_int (round_half_even (x / 2 powi (?e - 52)) * 2 ^ nat (?e + 1022)) * 2 powi (- 1074)"
    unfolding p by (simp add: round_raw_def Let_def)
  then show ?thesis by blast
qed

lemma representable_grid:
  assumes "representable a"
  shows "\<exists>k::int. real_of a = of_int k * 2 powi (- 1074)"
proof (cases a)
  case (Fin x)
  with assms have r: "round_double x = Fin x" by simp
  consider "x = 0" | "0 < x" | "x < 0" by linarith
  then show ?thesis
  proof cases
    case 1
    then have "real_of a = of_int 0 * 2 powi (- 1074)" using Fin by simp
    then show ?thesis by blast
  next
    case 2
    with r have "x = round_raw x" by (simp add: round_double_pos split: if_splits)
    with round_raw_grid [of x] Fin show ?thesis by simp
  next
    case 3
    with r have "x = - round_raw (- x)" by (simp add: round_double_neg split: if_splits)
    moreover obtain k :: int where "round_raw (- x) = of_int k * 2 powi (- 1074)"
      using round_raw_grid by blast
    ultimately have "x = of_int (- k) * 2 powi (- 1074)" by simp
    with Fin show ?thesis by (metis real_of.simps(1))
  qed
next
  case NegZero
  then have "real_of a = of_int 0 * 2 powi (- 1074)" by simp
  then show ?thesis by blast
next
  case PInf
  then have "real_of a = of_int 0 * 2 powi (- 1074)" by simp
  then show ?thesis by blast
next
  case NInf
  then have "real_of a = of_int 0 * 2 powi (- 1074)" by simp
  then show ?thesis by blast
next
  case NaN
  then have "real_of a = of_int 0 * 2 powi (- 1074)" by simp
  then show ?thesis by blast
qed

lemma round_raw_min: "round_raw (2 powi (- 1074)) = 2 powi (- 1074)"
proof -
  have "(2::real) powi (- 1074) < 2 powi (- 1021)"
    by (intro power_int_strict_increasing) simp_all
  then have "exponent (2 powi (- 1074)) = - 1022" by (rule exponent_subnormal)
  then show ?thesis using rhe_of_int [of 1] by (simp add: round_raw_def Let_def)
qed

lemma round_raw_MAX: "round_raw MAX_VALUE = MAX_VALUE"
  by (rule round_raw_exact [where e = 1023 and k = "2 ^ 53 - 1"])
    (simp_all add: MAX_VALUE_def)

lemma representable_difference:
  assumes "representable lo" "representable hi" "is_finite lo" "is_finite hi"
    and "real_of lo < real_of hi" "real_of hi - real_of lo \<le> MAX_VALUE"
  shows "\<exists>d. num_sub hi lo = Fin d \<and> 0 < d"
proof -
  let ?s = "real_of hi - real_of lo"
  from representable_grid [OF assms(1)] representable_grid [OF assms(2)]
  obtain k l :: int where kl: "real_of lo = of_int k * 2 powi (- 1074)"
    "real_of hi = of_int l * 2 powi (- 1074)" by blast
  then have s: "?s = of_int (l - k) * 2 powi (- 1074)" by (simp add: left_diff_distrib)
  from assms(5) have pos: "0 < ?s" by simp
  with s have "0 < (of_int (l - k) :: real)" by (simp add: zero_less_mult_iff)
  then have "1 \<le> l - k" by simp
  then have "(1::real) \<le> of_int (l - k)" by (simp only: of_int_1_le_iff)
  then have "1 * 2 powi (- 1074) \<le> of_int (l - k) * (2::real) powi (- 1074)"
    by (intro mult_right_mono) simp_all
  with s have ge: "2 powi (- 1074) \<le> ?s" by simp
  have "round_raw (2 powi (- 1074)) \<le> round_raw ?s"
    by (rule round_raw_mono [OF _ ge]) simp
  then have "(2::real) powi (- 1074) \<le> round_raw ?s" by (simp only: round_raw_min)
  moreover have "(0::real) < 2 powi (- 1074)" by simp
  ultimately have rpos: "0 < round_raw ?s" by linarith
  have "round_raw ?s \<le> round_raw MAX_VALUE" by (rule round_raw_mono [OF pos assms(6)])
  then have "round_raw ?s \<le> MAX_VALUE" by (simp only: round_raw_MAX)
  moreover have "MAX_VALUE < 2 powi 1024" by (simp add: MAX_VALUE_def)
  ultimately have "\<not> 2 powi 1024 \<le> round_raw ?s" by linarith
  with pos have "round_double ?s = Fin (round_raw ?s)" by (simp add: round_double_pos)
  moreover from pos have "?s \<noteq> 0" by simp
  ultimately have "num_sub hi lo = Fin (round_raw ?s)"
    using assms(3,4) by (simp add: num_sub_finite)
  with rpos show ?thesis by blast
qed

section \<open>The error of the running average\<close>

text \<open>
  Every quotient and every partial sum is rounded once. With \<open>u = 2 powi (- 53)\<close> and
  \<open>h = 2 powi (- 1075)\<close>, a quotient of a value of magnitude at most \<open>M\<close> by \<open>n\<close> is
  within \<open>u * M / n + h\<close> of the exact quotient, and the sum after \<open>k\<close> steps is within
  \<open>k\<close> times a constant of the exact partial sum.
\<close>

lemma div_close:
  assumes "is_finite v" "1 \<le> n" "\<bar>real_of v\<bar> \<le> M" "M \<le> 2 powi 1023"
  shows "is_finite (num_div v (Fin n))
    \<and> \<bar>real_of (num_div v (Fin n)) - real_of v / n\<bar> \<le> 2 powi (- 53) * M / n + 2 powi (- 1075)"
proof (cases "real_of v = 0")
  case True
  with assms(1,2) have "num_div v (Fin n) = signed_zero (is_negative v \<noteq> (n < 0))"
    by (simp add: num_div_finite div_finite_def)
  moreover have "0 \<le> 2 powi (- 53) * M / n" using assms(2,3) by simp
  ultimately show ?thesis using True by (simp add: signed_zero_def)
next
  case False
  with assms(1,2) have d: "num_div v (Fin n) = round_double (real_of v / n)"
    by (simp add: num_div_finite div_finite_def)
  have q: "\<bar>real_of v / n\<bar> \<le> M / n" using assms(2,3) by (simp add: divide_right_mono)
  also have "M / n \<le> M"
  proof -
    have "0 \<le> M" using assms(3) by linarith
    then have "M * 1 \<le> M * n" using assms(2) by (intro mult_left_mono) simp_all
    then show ?thesis using assms(2) by (simp add: field_simps)
  qed
  finally have "\<bar>real_of v / n\<bar> \<le> 2 powi 1023" using assms(4) by simp
  from round_double_close [OF this]
  have f: "is_finite (round_double (real_of v / n))"
    and e: "\<bar>real_of (round_double (real_of v / n)) - real_of v / n\<bar>
              \<le> 2 powi (- 53) * \<bar>real_of v / n\<bar> + 2 powi (- 1075)" by simp_all
  have "2 powi (- 53) * \<bar>real_of v / n\<bar> \<le> 2 powi (- 53) * (M / n)"
    using q by (intro mult_left_mono) simp_all
  with e f show ?thesis unfolding d by simp
qed

lemma add_close:
  assumes "is_finite a" "is_finite b" "\<bar>real_of a + real_of b\<bar> \<le> 2 powi 1023"
  shows "is_finite (num_add a b)
    \<and> \<bar>real_of (num_add a b) - (real_of a + real_of b)\<bar>
         \<le> 2 powi (- 53) * \<bar>real_of a + real_of b\<bar> + 2 powi (- 1075)"
proof (cases "real_of a + real_of b = 0")
  case True
  with assms(1,2) show ?thesis by (simp add: num_add_finite add_finite_def)
next
  case False
  with assms(1,2) have "num_add a b = round_double (real_of a + real_of b)"
    by (simp add: num_add_finite add_finite_def)
  with round_double_close [OF assms(3)] show ?thesis by simp
qed

lemma abs_sum_list_le:
  assumes "\<forall>x \<in> set xs. \<bar>x\<bar> \<le> (M::real)"
  shows "\<bar>sum_list xs\<bar> \<le> real (length xs) * M"
  using assms
proof (induction xs)
  case Nil
  then show ?case by simp
next
  case (Cons x xs)
  then have "\<bar>sum_list xs\<bar> \<le> real (length xs) * M" "\<bar>x\<bar> \<le> M" by simp_all
  then have "\<bar>x + sum_list xs\<bar> \<le> M + real (length xs) * M" by linarith
  then show ?case by (simp add: algebra_simps)
qed

lemma fold_close:
  fixes n :: nat and M :: real and u :: real and h :: real
  defines "u \<equiv> 2 powi (- 53)" and "h \<equiv> 2 powi (- 1075)"
  defines "C \<equiv> 2 * (u * M + 2 * h + u * M / real n)"
  assumes n: "1 \<le> n" and nu: "real n * u \<le> 1 / 2" and M: "0 \<le> M"
    and big: "M + real n * C \<le> 2 powi 1023"
    and vs: "\<forall>v \<in> set vs. is_finite v \<and> \<bar>real_of v\<bar> \<le> M" and len: "length vs \<le> n"
  shows "is_finite (foldl (\<lambda>a v. num_add a (num_div v (Fin (real n)))) (Fin 0) vs)
    \<and> \<bar>real_of (foldl (\<lambda>a v. num_add a (num_div v (Fin (real n)))) (Fin 0) vs)
         - sum_list (map real_of vs) / real n\<bar> \<le> real (length vs) * C"
  using vs len
proof (induction vs rule: rev_induct)
  case Nil
  then show ?case by simp
next
  case (snoc v vs)
  let ?N = "real n"
  let ?F = "\<lambda>vs. foldl (\<lambda>a v. num_add a (num_div v (Fin ?N))) (Fin 0) vs"
  define A where "A = real_of (?F vs)"
  define q where "q = real_of (num_div v (Fin ?N))"
  define R where "R = real_of (num_add (?F vs) (num_div v (Fin ?N)))"
  define S where "S = sum_list (map real_of vs) / ?N"
  define S' where "S' = sum_list (map real_of (vs @ [v])) / ?N"
  define dv where "dv = real_of v / ?N"
  define a where "a = u * M"
  define b where "b = u * M / ?N"
  define kC where "kC = real (length vs) * C"
  define NC where "NC = ?N * C"
  have upos: "0 < u" and hpos: "0 < h" by (simp_all add: u_def h_def)
  have Npos: "0 < ?N" and N1: "1 \<le> ?N" using n by simp_all
  have a0: "0 \<le> a" and b0: "0 \<le> b" using upos M Npos by (simp_all add: a_def b_def)
  have Cflat: "C = 2 * a + 4 * h + 2 * b" by (simp add: C_def a_def b_def)
  have C0: "0 \<le> C" unfolding Cflat using a0 b0 hpos by linarith
  have k1: "real (length vs) + 1 \<le> ?N" using snoc.prems(2) by simp
  from snoc have fin: "is_finite (?F vs)" and err: "\<bar>A - S\<bar> \<le> kC"
    by (simp_all add: A_def S_def kC_def)
  from snoc.prems(1) have v: "is_finite v" "\<bar>real_of v\<bar> \<le> M" by simp_all
  have NC0: "0 \<le> NC" using C0 Npos by (simp add: NC_def)
  have Mb: "M \<le> 2 powi 1023" using big NC0 unfolding NC_def by linarith
  from div_close [OF v(1) N1 v(2) Mb]
  have qf: "is_finite (num_div v (Fin ?N))" and qe: "\<bar>q - dv\<bar> \<le> b + h"
    by (simp_all add: u_def h_def q_def dv_def b_def)
  have S': "S' = S + dv" by (simp add: S'_def S_def dv_def add_divide_distrib)
  have "\<forall>x \<in> set (map real_of (vs @ [v])). \<bar>x\<bar> \<le> M" using snoc.prems(1) by auto
  from abs_sum_list_le [OF this]
  have "\<bar>sum_list (map real_of (vs @ [v]))\<bar> \<le> (real (length vs) + 1) * M"
    by (simp add: add.commute)
  also have "\<dots> \<le> ?N * M" using k1 M by (intro mult_right_mono) simp_all
  finally have "\<bar>sum_list (map real_of (vs @ [v]))\<bar> / ?N \<le> ?N * M / ?N"
    using Npos by (intro divide_right_mono) simp_all
  then have Sb: "\<bar>S'\<bar> \<le> M" using Npos by (simp add: S'_def)
  have te: "\<bar>A + q - S'\<bar> \<le> kC + (b + h)"
    using err qe unfolding S' by linarith
  have kCN: "kC + C \<le> NC"
  proof -
    have "(real (length vs) + 1) * C \<le> ?N * C" using k1 C0 by (intro mult_right_mono) simp_all
    then show ?thesis by (simp add: algebra_simps kC_def NC_def)
  qed
  have tb: "\<bar>A + q\<bar> \<le> M + NC" using te Sb kCN a0 b0 hpos unfolding Cflat by linarith
  with big have "\<bar>A + q\<bar> \<le> 2 powi 1023" unfolding NC_def by linarith
  then have "\<bar>real_of (?F vs) + real_of (num_div v (Fin ?N))\<bar> \<le> 2 powi 1023"
    by (simp add: A_def q_def)
  from add_close [OF fin qf this]
  have rf: "is_finite (num_add (?F vs) (num_div v (Fin ?N)))"
    and re: "\<bar>R - (A + q)\<bar> \<le> u * \<bar>A + q\<bar> + h"
    by (simp_all add: u_def h_def R_def A_def q_def)
  define w where "w = u * \<bar>A + q\<bar>"
  define x where "x = (?N * u) * C"
  have "w \<le> u * (M + NC)" unfolding w_def using tb upos by (intro mult_left_mono) simp_all
  also have "\<dots> = a + x" by (simp add: algebra_simps a_def NC_def x_def)
  finally have s1: "w \<le> a + x" .
  have "x \<le> (1 / 2) * C" unfolding x_def using nu C0 by (intro mult_right_mono) simp_all
  also have "\<dots> = a + 2 * h + b" by (simp add: Cflat)
  finally have s2: "x \<le> a + 2 * h + b" .
  from re have re': "\<bar>R - (A + q)\<bar> \<le> w + h" by (simp add: w_def)
  have "\<bar>R - S'\<bar> \<le> kC + C"
    using re' te s1 s2 unfolding Cflat by linarith
  also have "kC + C = real (length (vs @ [v])) * C" by (simp add: algebra_simps kC_def)
  finally show ?case using rf by (simp add: R_def S'_def)
qed

lemma running_average_close:
  assumes ne: "vs \<noteq> []" and len: "length vs < 2 ^ 32"
    and M: "0 \<le> M" "M \<le> 2 ^ 1000"
    and vs: "\<forall>v \<in> set vs. is_finite v \<and> \<bar>real_of v\<bar> \<le> M"
  shows "is_finite (running_average vs)
    \<and> \<bar>real_of (running_average vs) - mean (map real_of vs)\<bar> \<le> tolerance (length vs) M"
proof -
  define n where "n = length vs"
  define u :: real where "u = 2 powi (- 53)"
  define h :: real where "h = 2 powi (- 1075)"
  define C where "C = 2 * (u * M + 2 * h + u * M / real n)"
  define N where "N = real n"
  have n1: "1 \<le> n" using ne by (cases vs) (simp_all add: n_def)
  have Npos: "0 < N" and N1: "1 \<le> N" using n1 by (simp_all add: N_def)
  have "n < 2 ^ 32" using len by (simp add: n_def)
  then have "real n < real (2 ^ 32)" by (simp only: of_nat_less_iff)
  then have Nle: "N + 1 \<le> 2 ^ 32" using \<open>n < 2 ^ 32\<close> by (simp add: N_def)
  have upos: "0 < u" and hpos: "0 < h" by (simp_all add: u_def h_def)
  have nu: "real n * u \<le> 1 / 2"
  proof -
    have "N * u \<le> 2 ^ 32 * u" using Nle upos by (intro mult_right_mono) simp_all
    also have "\<dots> \<le> 1 / 2" by (simp add: u_def)
    finally show ?thesis by (simp add: N_def)
  qed
  define P where "P = (N + 1) * M"
  have P0: "0 \<le> P" using Npos M(1) by (simp add: P_def)
  have "P \<le> 2 ^ 32 * 2 ^ 1000" unfolding P_def using Nle M Npos by (intro mult_mono) simp_all
  then have Pb: "P * 2 powi (- 52) \<le> 2 ^ 32 * 2 ^ 1000 * 2 powi (- 52)"
    by (intro mult_right_mono) simp_all
  have "h * N \<le> h * 2 ^ 32" using Nle hpos by (intro mult_left_mono) simp_all
  then have hb: "4 * (h * N) \<le> 2 powi (- 1041)" by (simp add: h_def)
  have "N * (u * M / N) = u * M" using Npos by simp
  moreover have "N * C = 2 * (N * (u * M)) + 4 * (h * N) + 2 * (N * (u * M / N))"
    by (simp add: C_def algebra_simps N_def)
  ultimately have "N * C = 2 * (N * (u * M)) + 4 * (h * N) + 2 * (u * M)" by simp
  then have "N * C = 2 * ((N + 1) * M * u) + 4 * (h * N)"
    by (simp add: algebra_simps)
  also have "2 * ((N + 1) * M * u) = P * 2 powi (- 52)"
    by (simp add: P_def u_def)
  finally have NC: "N * C = P * 2 powi (- 52) + 4 * (h * N)" .
  then have NCle: "N * C \<le> P * 2 powi (- 52) + 2 powi (- 1041)" using hb by linarith
  have big: "M + real n * C \<le> 2 powi 1023"
  proof -
    have "M + N * C \<le> 2 ^ 1000 + (2 ^ 32 * 2 ^ 1000 * 2 powi (- 52) + 2 powi (- 1041))"
      using M(2) NCle Pb by linarith
    also have "\<dots> \<le> 2 powi 1023" by simp
    finally show ?thesis by (simp add: N_def)
  qed
  have len': "length vs \<le> n" by (simp add: n_def)
  from fold_close [OF n1 nu [unfolded u_def] M(1) big [unfolded C_def u_def h_def] vs len']
  have fin: "is_finite (foldl (\<lambda>a v. num_add a (num_div v (Fin (real n)))) (Fin 0) vs)"
    and err: "\<bar>real_of (foldl (\<lambda>a v. num_add a (num_div v (Fin (real n)))) (Fin 0) vs)
         - sum_list (map real_of vs) / real n\<bar> \<le> real (length vs) * C"
    by (simp_all add: C_def u_def h_def)
  have ra: "running_average vs = foldl (\<lambda>a v. num_add a (num_div v (Fin (real n)))) (Fin 0) vs"
    by (simp add: running_average_def n_def)
  have mn: "mean (map real_of vs) = sum_list (map real_of vs) / real n"
    by (simp add: mean_def n_def)
  have "real (length vs) * C = N * C" by (simp add: n_def N_def)
  also note NCle
  also have "P * 2 powi (- 52) + 2 powi (- 1041) = tolerance (length vs) M"
    by (simp add: tolerance_def P_def N_def n_def)
  finally have "real (length vs) * C \<le> tolerance (length vs) M" .
  with err fin show ?thesis unfolding ra mn by linarith
qed

section \<open>Two running averages that are not the mean\<close>

lemma running_average_3:
  "running_average [a, b, c] =
     num_add (num_add (num_add (Fin 0) (num_div a (Fin 3))) (num_div b (Fin 3))) (num_div c (Fin 3))"
  by (simp add: running_average_def del: num_add.simps num_div.simps)

lemma running_average_overflow: "running_average [Fin MAX_VALUE, Fin MAX_VALUE, Fin MAX_VALUE] = PInf"
proof -
  define Q :: real where "Q = 6004799503160661 * 2 ^ 970"
  have Q0: "Q \<noteq> 0" "0 < Q" by (simp_all add: Q_def)
  have m: "MAX_VALUE \<noteq> 0" by (simp add: MAX_VALUE_def)
  have "round_double (MAX_VALUE / 3) = Fin Q"
    using round_double_eval [where e = 1022 and x = "MAX_VALUE / 3"]
    by (simp add: MAX_VALUE_def round_half_even_def Q_def)
  then have q: "num_div (Fin MAX_VALUE) (Fin 3) = Fin Q"
    using m by (simp add: div_finite_def)
  have "round_double Q = Fin Q"
    by (rule round_double_exact [where e = 1022 and k = "6004799503160661"])
      (simp_all add: Q_def)
  then have a1: "num_add (Fin 0) (Fin Q) = Fin Q"
    using Q0 by (simp add: add_finite_def)
  have "round_double (2 * Q) = Fin (2 * Q)"
    by (rule round_double_exact [where e = 1023 and k = "6004799503160661"])
      (simp_all add: Q_def)
  then have a2: "num_add (Fin Q) (Fin Q) = Fin (2 * Q)"
    using Q0 by (simp add: add_finite_def)
  have "round_double (3 * Q) = PInf"
    using round_double_eval [where e = 1023 and x = "3 * Q"]
    by (simp add: round_half_even_def Q_def)
  then have a3: "num_add (Fin (2 * Q)) (Fin Q) = PInf"
    using Q0 by (simp add: add_finite_def)
  show ?thesis by (simp only: running_average_3 q a1 a2 a3)
qed

lemma running_average_cancellation: "running_average [Fin (10 ^ 16), Fin 1, Fin (- (10 ^ 16))] = Fin (1 / 2)"
proof -
  define Q :: real where "Q = 6666666666666667 / 2"
  define T :: real where "T = 6004799503160661 / 2 ^ 54"
  define U :: real where "U = 3333333333333334"
  have pos: "0 < Q" "0 < T" by (simp_all add: Q_def T_def)
  have "round_double (10 ^ 16 / 3) = Fin Q"
    using round_double_eval [where e = 51 and x = "10 ^ 16 / 3"]
    by (simp add: round_half_even_def Q_def)
  then have q1: "num_div (Fin (10 ^ 16)) (Fin 3) = Fin Q"
    by (simp add: div_finite_def)
  have "round_double (1 / 3) = Fin T"
    using round_double_eval [where e = "- 2" and x = "1 / 3"]
    by (simp add: round_half_even_def T_def)
  then have q2: "num_div (Fin 1) (Fin 3) = Fin T"
    by (simp add: div_finite_def)
  have rQ: "round_double Q = Fin Q"
    by (rule round_double_exact [where e = 51 and k = "6666666666666667"])
      (simp_all add: Q_def)
  have "round_double (- Q) = Fin (- Q)"
    by (rule round_double_exact [where e = 51 and k = "6666666666666667"])
      (simp_all add: Q_def)
  moreover have "- (10 ^ 16) / 3 / 3 * 3 = (- (10 ^ 16) / 3 :: real)" by simp
  moreover have "round_double (- (10 ^ 16) / 3) = Fin (- Q)"
  proof -
    have "round_raw (10 ^ 16 / 3) = Q"
      using \<open>round_double (10 ^ 16 / 3) = Fin Q\<close>
      by (simp add: round_double_pos split: if_splits)
    with pos show ?thesis by (simp add: round_double_neg Q_def)
  qed
  ultimately have q3: "num_div (Fin (- (10 ^ 16))) (Fin 3) = Fin (- Q)"
    by (simp add: div_finite_def)
  have a1: "num_add (Fin 0) (Fin Q) = Fin Q"
    using rQ pos by (simp add: add_finite_def)
  have "round_double (Q + T) = Fin U"
    using round_double_eval [where e = 51 and x = "Q + T"]
    by (simp add: round_half_even_def Q_def T_def U_def)
  then have a2: "num_add (Fin Q) (Fin T) = Fin U"
    using pos by (simp add: add_finite_def)
  have d: "U - Q = 1 / 2" by (simp add: U_def Q_def)
  have a3: "num_add (Fin U) (Fin (- Q)) = Fin (1 / 2)"
    by (simp add: add_finite_def d rd_half)
  show ?thesis by (simp only: running_average_3 q1 q2 q3 a1 a2 a3)
qed

section \<open>Feature extraction and the channel means\<close>

lemma foldl_accumulate:
  "eeg1 (foldl (accumulate n) f xs) = foldl (\<lambda>a s. num_add a (num_div (eeg1 s) n)) (eeg1 f) xs"
  "eeg2 (foldl (accumulate n) f xs) = foldl (\<lambda>a s. num_add a (num_div (eeg2 s) n)) (eeg2 f) xs"
  "eeg3 (foldl (accumulate n) f xs) = foldl (\<lambda>a s. num_add a (num_div (eeg3 s) n)) (eeg3 f) xs"
  "eeg4 (foldl (accumulate n) f xs) = foldl (\<lambda>a s. num_add a (num_div (eeg4 s) n)) (eeg4 f) xs"
  "eeg5 (foldl (accumulate n) f xs) = foldl (\<lambda>a s. num_add a (num_div (eeg5 s) n)) (eeg5 f) xs"
  "eeg6 (foldl (accumulate n) f xs) = foldl (\<lambda>a s. num_add a (num_div (eeg6 s) n)) (eeg6 f) xs"
  "eeg7 (foldl (accumulate n) f xs) = foldl (\<lambda>a s. num_add a (num_div (eeg7 s) n)) (eeg7 f) xs"
  "eeg8 (foldl (accumulate n) f xs) = foldl (\<lambda>a s. num_add a (num_div (eeg8 s) n)) (eeg8 f) xs"
  by (induction xs arbitrary: f; simp add: accumulate_def del: num_add.simps num_div.simps)+

lemma running_average_map:
  "running_average (map c xs) =
     foldl (\<lambda>a s. num_add a (num_div (c s) (Fin (real (length xs))))) (Fin 0) xs"
  by (simp add: running_average_def foldl_map del: num_add.simps num_div.simps)

lemma extractFeatures_entries:
  assumes "samples \<noteq> []"
  shows "extractFeatures samples =
     Inr (map (\<lambda>(key, channel). (key, running_average (map channel samples))) channels)"
  using assms
  by (simp add: extractFeatures_def entries_def foldl_accumulate zero_features_def
      running_average_map channels_def del: num_add.simps num_div.simps)

lemma channels_keys:
  "map fst channels =
     [''eeg1'', ''eeg2'', ''eeg3'', ''eeg4'', ''eeg5'', ''eeg6'', ''eeg7'', ''eeg8'']"
  by (simp add: channels_def)

lemma bounded_sample_channel:
  assumes "\<forall>s \<in> set samples. bounded_sample M s" "(key, channel) \<in> set channels"
  shows "\<forall>v \<in> set (map channel samples). is_finite v \<and> \<bar>real_of v\<bar> \<le> M"
  using assms by (auto simp: bounded_sample_def list_all_iff)

lemma running_average_pair:
  "running_average [a, b] =
     num_add (num_add (Fin 0) (num_div a (Fin 2))) (num_div b (Fin 2))"
  by (simp add: running_average_def del: num_add.simps num_div.simps)

lemma running_average_zero: "running_average [Fin 0, Fin 0, Fin 0] = Fin 0"
  by (simp add: running_average_3 div_finite_def add_finite_def signed_zero_def)

lemma extractFeatures_sample_of:
  "extractFeatures [sample_of x, sample_of y, sample_of z] =
     Inr [(''eeg1'', running_average [Fin x, Fin y, Fin z]), (''eeg2'', Fin 0),
          (''eeg3'', Fin 0), (''eeg4'', Fin 0), (''eeg5'', Fin 0), (''eeg6'', Fin 0),
          (''eeg7'', Fin 0), (''eeg8'', Fin 0)]"
proof -
  have "extractFeatures [sample_of x, sample_of y, sample_of z] =
     Inr (map (\<lambda>(key, channel).
            (key, running_average (map channel [sample_of x, sample_of y, sample_of z])))
          channels)"
    by (rule extractFeatures_entries) simp
  then show ?thesis
    by (simp add: channels_def sample_of_def running_average_zero)
qed

text \<open>
  Claim C1, as stated, fails. Three samples whose first channel reads
  \<open>Number.MAX_VALUE\<close> have the mean \<open>Number.MAX_VALUE\<close> on that channel, and
  \<open>extractFeatures\<close> returns \<open>Infinity\<close> there: each of the three quotients is
  rounded up, and their sum overflows. For the three readings \<open>1e16\<close>, \<open>1\<close> and
  \<open>-1e16\<close>, whose mean is \<open>1/3\<close>, it returns \<open>0.5\<close>. All of these readings are
  doubles.
\<close>

theorem extractFeatures_mean_counterexample:
  "extractFeatures [sample_of MAX_VALUE, sample_of MAX_VALUE, sample_of MAX_VALUE] =
     Inr [(''eeg1'', PInf), (''eeg2'', Fin 0), (''eeg3'', Fin 0), (''eeg4'', Fin 0),
          (''eeg5'', Fin 0), (''eeg6'', Fin 0), (''eeg7'', Fin 0), (''eeg8'', Fin 0)]
   \<and> mean [MAX_VALUE, MAX_VALUE, MAX_VALUE] = MAX_VALUE
   \<and> representable (Fin MAX_VALUE)
   \<and> extractFeatures [sample_of (10 ^ 16), sample_of 1, sample_of (- (10 ^ 16))] =
     Inr [(''eeg1'', Fin (1 / 2)), (''eeg2'', Fin 0), (''eeg3'', Fin 0), (''eeg4'', Fin 0),
          (''eeg5'', Fin 0), (''eeg6'', Fin 0), (''eeg7'', Fin 0), (''eeg8'', Fin 0)]
   \<and> mean [10 ^ 16, 1, - (10 ^ 16)] = 1 / 3
   \<and> representable (Fin (10 ^ 16)) \<and> representable (Fin 1) \<and> representable (Fin (- (10 ^ 16)))"
proof -
  have 1: "extractFeatures [sample_of MAX_VALUE, sample_of MAX_VALUE, sample_of MAX_VALUE] =
     Inr [(''eeg1'', PInf), (''eeg2'', Fin 0), (''eeg3'', Fin 0), (''eeg4'', Fin 0),
          (''eeg5'', Fin 0), (''eeg6'', Fin 0), (''eeg7'', Fin 0), (''eeg8'', Fin 0)]"
    by (simp only: extractFeatures_sample_of running_average_overflow)
  have 2: "extractFeatures [sample_of (10 ^ 16), sample_of 1, sample_of (- (10 ^ 16))] =
     Inr [(''eeg1'', Fin (1 / 2)), (''eeg2'', Fin 0), (''eeg3'', Fin 0), (''eeg4'', Fin 0),
          (''eeg5'', Fin 0), (''eeg6'', Fin 0), (''eeg7'', Fin 0), (''eeg8'', Fin 0)]"
    by (simp only: extractFeatures_sample_of running_average_cancellation)
  have 3: "mean [MAX_VALUE, MAX_VALUE, MAX_VALUE] = MAX_VALUE"
    "mean [10 ^ 16, 1, - (10 ^ 16)] = 1 / 3"
    by (simp_all add: mean_def)
  have 4: "representable (Fin MAX_VALUE)" "representable (Fin (10 ^ 16))"
    "representable (Fin 1)" "representable (Fin (- (10 ^ 16)))"
    by (simp_all only: representable.simps rd_MAX rd_10_16 round_double_1 rd_10_16_neg)
  from 1 2 3 4 show ?thesis by blast
qed

text \<open>
  Claim C1, amended. For every non-empty sequence of fewer than \<open>2 ^ 32\<close> samples (the
  bound of the length of an array) whose channel values are finite and of magnitude at
  most \<open>M\<close>, with \<open>M\<close> at most \<open>2 ^ 1000\<close>, \<open>extractFeatures\<close> returns exactly the
  eight entries \<open>eeg1\<close>, ..., \<open>eeg8\<close>; the value at each key is the rounded running
  sum of the quotients of that channel, it is finite, and it differs from the
  arithmetic mean of the channel over the \<open>n\<close> samples by at most
  \<open>(n + 1) * M * 2 powi (- 52) + 2 powi (- 1041)\<close>.
\<close>

theorem extractFeatures_mean:
  assumes "samples \<noteq> []" and "length samples < 2 ^ 32"
    and "0 \<le> M" and "M \<le> 2 ^ 1000"
    and "\<forall>s \<in> set samples. bounded_sample M s"
  shows "extractFeatures samples =
           Inr (map (\<lambda>(key, channel). (key, running_average (map channel samples))) channels)
     \<and> map fst channels =
           [''eeg1'', ''eeg2'', ''eeg3'', ''eeg4'', ''eeg5'', ''eeg6'', ''eeg7'', ''eeg8'']
     \<and> (\<forall>(key, channel) \<in> set channels.
          is_finite (running_average (map channel samples))
          \<and> \<bar>real_of (running_average (map channel samples))
               - mean (map (\<lambda>s. real_of (channel s)) samples)\<bar>
            \<le> (real (length samples) + 1) * M * 2 powi (- 52) + 2 powi (- 1041))"
proof -
  have 1: "extractFeatures samples =
           Inr (map (\<lambda>(key, channel). (key, running_average (map channel samples))) channels)"
    using assms(1) by (rule extractFeatures_entries)
  have 3: "is_finite (running_average (map channel samples))
          \<and> \<bar>real_of (running_average (map channel samples))
               - mean (map (\<lambda>s. real_of (channel s)) samples)\<bar>
            \<le> (real (length samples) + 1) * M * 2 powi (- 52) + 2 powi (- 1041)"
    if "(key, channel) \<in> set channels" for key channel
  proof -
    have ne: "map channel samples \<noteq> []" using assms(1) by simp
    have len: "length (map channel samples) < 2 ^ 32" using assms(2) by simp
    note b = bounded_sample_channel [OF assms(5) that]
    from running_average_close [OF ne len assms(3,4) b]
    show ?thesis by (simp add: tolerance_def comp_def)
  qed
  from 1 channels_keys 3 show ?thesis by blast
qed

theorem extractFeatures_mean_witness:
  "[sample_a, sample_b] \<noteq> [] \<and> length [sample_a, sample_b] < 2 ^ 32
   \<and> (0 :: real) \<le> 60 \<and> (60 :: real) \<le> 2 ^ 1000
   \<and> bounded_sample 60 sample_a \<and> bounded_sample 60 sample_b
   \<and> extractFeatures [sample_a, sample_b] =
       Inr [(''eeg1'', Fin 30), (''eeg2'', Fin 20), (''eeg3'', Fin 0), (''eeg4'', Fin 10),
            (''eeg5'', Fin 10), (''eeg6'', Fin 0), (''eeg7'', Fin 20), (''eeg8'', Fin 35)]
   \<and> \<bar>real_of (running_average [eeg1 sample_a, eeg1 sample_b]) - mean [40, 20]\<bar>
       \<le> 3 * 60 * 2 powi (- 52) + 2 powi (- 1041)"
proof -
  have b: "bounded_sample 60 sample_a" "bounded_sample 60 sample_b"
    by (simp_all add: bounded_sample_def channels_def sample_a_def sample_b_def)
  then have h: "\<forall>s \<in> set [sample_a, sample_b]. bounded_sample 60 s" by simp
  have M: "(0 :: real) \<le> 60" "(60 :: real) \<le> 2 ^ 1000" by simp_all
  have l: "[sample_a, sample_b] \<noteq> []" "length [sample_a, sample_b] < 2 ^ 32" by simp_all
  note t = extractFeatures_mean [OF l M h]
  have r: "running_average [eeg1 sample_a, eeg1 sample_b] = Fin 30"
    "running_average [eeg2 sample_a, eeg2 sample_b] = Fin 20"
    "running_average [eeg3 sample_a, eeg3 sample_b] = Fin 0"
    "running_average [eeg4 sample_a, eeg4 sample_b] = Fin 10"
    "running_average [eeg5 sample_a, eeg5 sample_b] = Fin 10"
    "running_average [eeg6 sample_a, eeg6 sample_b] = Fin 0"
    "running_average [eeg7 sample_a, eeg7 sample_b] = Fin 20"
    "running_average [eeg8 sample_a, eeg8 sample_b] = Fin 35"
    by (simp_all add: running_average_pair sample_a_def sample_b_def div_finite_def
        add_finite_def signed_zero_def rd_examples)
  from t have "extractFeatures [sample_a, sample_b] =
       Inr [(''eeg1'', Fin 30), (''eeg2'', Fin 20), (''eeg3'', Fin 0), (''eeg4'', Fin 10),
            (''eeg5'', Fin 10), (''eeg6'', Fin 0), (''eeg7'', Fin 20), (''eeg8'', Fin 35)]"
    by (simp add: channels_def r)
  moreover from t have "\<bar>real_of (running_average [eeg1 sample_a, eeg1 sample_b]) - mean [40, 20]\<bar>
       \<le> 3 * 60 * 2 powi (- 52) + 2 powi (- 1041)"
    by (simp add: channels_def r mean_def)
  ultimately show ?thesis using b M l by blast
qed

section \<open>Normalization into the unit interval\<close>

lemma difference_overflow:
  "num_sub (Fin MAX_VALUE) (Fin (- MAX_VALUE)) = PInf"
proof -
  have "(2::real) powi 1024 \<le> MAX_VALUE + MAX_VALUE" by (simp add: MAX_VALUE_def)
  then have "round_double (MAX_VALUE + MAX_VALUE) = PInf" by (rule round_double_overflow)
  moreover have "MAX_VALUE \<noteq> 0" by (simp add: MAX_VALUE_def)
  ultimately show ?thesis by (simp add: num_sub_def add_finite_def)
qed

lemma normalizeValue_overflow:
  "normalizeValue (Fin (- MAX_VALUE)) (Fin MAX_VALUE) (Fin MAX_VALUE) = NaN"
  by (simp add: normalizeValue_def difference_overflow)

lemma normalizeValue_NaN: "normalizeValue lo hi NaN = NaN"
  by (simp add: normalizeValue_def num_sub_def)

lemma normalizeValue_inside:
  "normalizeValue (Fin (- 50)) (Fin 50) (Fin 25) = Fin (3 / 4)"
  by (simp add: normalizeValue_def num_sub_def add_finite_def div_finite_def rd_examples)

text \<open>
  Claim C2, as stated, fails. With \<open>low = -Number.MAX_VALUE\<close> and
  \<open>high = Number.MAX_VALUE\<close> the difference \<open>high - low\<close> overflows to \<open>Infinity\<close>,
  and the value \<open>high\<close> is mapped to \<open>NaN\<close>, not to 1; and for any bounds a value
  \<open>NaN\<close> is mapped to \<open>NaN\<close>, which is not in the unit interval.
\<close>

theorem normalizeFeatures_unit_interval_counterexample:
  "num_gt (Fin MAX_VALUE) (Fin (- MAX_VALUE))
   \<and> representable (Fin MAX_VALUE) \<and> representable (Fin (- MAX_VALUE))
   \<and> normalizeFeatures [(''eeg1'', Fin MAX_VALUE)] (Fin (- MAX_VALUE)) (Fin MAX_VALUE) =
       Inr [(''eeg1'', NaN)]
   \<and> num_gt (Fin 50) (Fin (- 50))
   \<and> normalizeFeatures [(''eeg1'', NaN)] (Fin (- 50)) (Fin 50) = Inr [(''eeg1'', NaN)]
   \<and> \<not> in_unit NaN"
proof -
  have "num_gt (Fin MAX_VALUE) (Fin (- MAX_VALUE))" by (simp add: MAX_VALUE_def)
  moreover have "representable (Fin MAX_VALUE)" "representable (Fin (- MAX_VALUE))"
    by (simp_all only: representable.simps rd_MAX rd_MAX_neg)
  moreover have
    "normalizeFeatures [(''eeg1'', Fin MAX_VALUE)] (Fin (- MAX_VALUE)) (Fin MAX_VALUE) =
       Inr [(''eeg1'', NaN)]"
    by (simp add: normalizeFeatures_def normalizeValue_overflow)
  moreover have
    "normalizeFeatures [(''eeg1'', NaN)] (Fin (- 50)) (Fin 50) = Inr [(''eeg1'', NaN)]"
    by (simp add: normalizeFeatures_def normalizeValue_NaN)
  ultimately show ?thesis by simp
qed

text \<open>
  Claim C2, amended. For finite bounds that are doubles, with \<open>high > low\<close> and a
  difference of at most \<open>Number.MAX_VALUE\<close>, and for a feature vector without \<open>NaN\<close>,
  \<open>normalizeFeatures\<close> returns the vector of the normalized values, each of which lies
  in the interval from 0 to 1; a value greater than or equal to \<open>high\<close> maps to exactly
  1, and a value less than or equal to \<open>low\<close> maps to exactly 0.
\<close>

theorem normalizeFeatures_unit_interval:
  assumes "representable lo" and "representable hi" and "is_finite lo" and "is_finite hi"
    and "num_gt hi lo" and "real_of hi - real_of lo \<le> MAX_VALUE"
    and "\<forall>(key, v) \<in> set fs. v \<noteq> NaN"
  shows "normalizeFeatures fs lo hi =
           Inr (map (\<lambda>(key, v). (key, normalizeValue lo hi v)) fs)
     \<and> (\<forall>(key, v) \<in> set fs.
          in_unit (normalizeValue lo hi v)
          \<and> (num_le hi v \<longrightarrow> normalizeValue lo hi v = Fin 1)
          \<and> (num_le v lo \<longrightarrow> normalizeValue lo hi v = Fin 0))"
proof -
  have lt: "real_of lo < real_of hi"
    using assms(3,4,5) by (cases lo; cases hi) simp_all
  from representable_difference [OF assms(1,2,3,4) lt assms(6)]
  obtain d where d: "num_sub hi lo = Fin d" "0 < d" by blast
  have 1: "normalizeFeatures fs lo hi =
           Inr (map (\<lambda>(key, v). (key, normalizeValue lo hi v)) fs)"
    by (simp add: normalizeFeatures_def)
  have 2: "in_unit (normalizeValue lo hi v)
          \<and> (num_le hi v \<longrightarrow> normalizeValue lo hi v = Fin 1)
          \<and> (num_le v lo \<longrightarrow> normalizeValue lo hi v = Fin 0)"
    if "(key, v) \<in> set fs" for key v
  proof -
    from that assms(7) have v: "v \<noteq> NaN" by auto
    have "in_unit (normalizeValue lo hi v)"
      using assms(3) d v by (rule normalizeValue_unit)
    moreover have "normalizeValue lo hi v = Fin 1" if "num_le hi v"
      using assms(3,4) d v by (rule normalizeValue_high) (use that in \<open>simp add: num_le_def\<close>)
    moreover have "normalizeValue lo hi v = Fin 0" if "num_le v lo"
      using assms(3) d v by (rule normalizeValue_low) (use that in \<open>simp add: num_le_def\<close>)
    ultimately show ?thesis by blast
  qed
  from 1 2 show ?thesis by blast
qed

theorem normalizeFeatures_unit_interval_witness:
  "representable (Fin (- 50)) \<and> representable (Fin 50)
   \<and> num_gt (Fin 50) (Fin (- 50)) \<and> real_of (Fin 50) - real_of (Fin (- 50)) \<le> MAX_VALUE
   \<and> num_le (Fin 50) (Fin 60) \<and> num_le (Fin (- 70)) (Fin (- 50))
   \<and> normalizeFeatures [(''eeg1'', Fin 60), (''eeg2'', Fin (- 70)), (''eeg3'', Fin 25)]
        (Fin (- 50)) (Fin 50)
       = Inr [(''eeg1'', Fin 1), (''eeg2'', Fin 0), (''eeg3'', Fin (3 / 4))]"
proof -
  have r: "representable (Fin (- 50))" "representable (Fin 50)"
    by (simp_all only: representable.simps rd_50 rd_50_pos)
  have f: "is_finite (Fin (- 50))" "is_finite (Fin 50)" by simp_all
  have g: "num_gt (Fin 50) (Fin (- 50))" by simp
  have m: "real_of (Fin 50) - real_of (Fin (- 50)) \<le> MAX_VALUE" by (simp add: MAX_VALUE_def)
  have n: "\<forall>(key, v) \<in> set [(''eeg1'', Fin 60), (''eeg2'', Fin (- 70)), (''eeg3'', Fin 25)].
             v \<noteq> NaN"
    by simp
  have c: "num_le (Fin 50) (Fin 60)" "num_le (Fin (- 70)) (Fin (- 50))"
    by (simp_all add: num_le_def)
  note t = normalizeFeatures_unit_interval [OF r f g m n]
  from t c have "normalizeValue (Fin (- 50)) (Fin 50) (Fin 60) = Fin 1"
    "normalizeValue (Fin (- 50)) (Fin 50) (Fin (- 70)) = Fin 0"
    by simp_all
  with t have "normalizeFeatures [(''eeg1'', Fin 60), (''eeg2'', Fin (- 70)), (''eeg3'', Fin 25)]
        (Fin (- 50)) (Fin 50)
       = Inr [(''eeg1'', Fin 1), (''eeg2'', Fin 0), (''eeg3'', Fin (3 / 4))]"
    by (simp add: normalizeValue_inside)
  with r g m c show ?thesis by blast
qed

section \<open>Normalization with bounds that are not increasing\<close>

lemma normalizeValue_reversed:
  "normalizeValue (Fin 50) (Fin (- 50)) (Fin 0) = Fin (1 / 2)"
  by (simp add: normalizeValue_def num_sub_def add_finite_def div_finite_def rd_examples)

lemma normalizeValue_equal_above:
  "normalizeValue (Fin 50) (Fin 50) (Fin 60) = Fin 1"
  by (simp add: normalizeValue_def num_sub_def add_finite_def div_finite_def
      signed_infinity_def rd_examples)

lemma normalizeValue_equal_at:
  "normalizeValue (Fin 50) (Fin 50) (Fin 50) = NaN"
  by (simp add: normalizeValue_def num_sub_def add_finite_def div_finite_def)

lemma normalizeValue_equal_below:
  "normalizeValue (Fin 50) (Fin 50) (Fin 0) = Fin 0"
  by (simp add: normalizeValue_def num_sub_def add_finite_def div_finite_def
      signed_infinity_def rd_examples)

text \<open>
  Claim C3, as stated, fails: with \<open>min = 50\<close> and \<open>max = -50\<close>, and with
  \<open>min = max = 50\<close>, \<open>normalizeFeatures\<close> returns a feature vector and raises nothing.
\<close>

theorem normalizeFeatures_bad_bounds_counterexample:
  "\<not> (50 :: real) < - 50
   \<and> normalizeFeatures [(''eeg1'', Fin 0)] (Fin 50) (Fin (- 50)) = Inr [(''eeg1'', Fin (1 / 2))]
   \<and> normalizeFeatures [(''eeg1'', Fin 60), (''eeg2'', Fin 50), (''eeg3'', Fin 0)] (Fin 50) (Fin 50)
       = Inr [(''eeg1'', Fin 1), (''eeg2'', NaN), (''eeg3'', Fin 0)]"
  by (simp add: normalizeFeatures_def normalizeValue_reversed normalizeValue_equal_above
      normalizeValue_equal_at normalizeValue_equal_below)

text \<open>
  Claim C3, amended. For every feature vector and all bounds with \<open>high <= low\<close>,
  \<open>normalizeFeatures\<close> does not fail: it returns a feature vector with the same keys
  in the same order.
\<close>

theorem normalizeFeatures_never_fails:
  assumes "num_le hi lo"
  shows "(\<exists>normalized. normalizeFeatures fs lo hi = Inr normalized
            \<and> map fst normalized = map fst fs)
     \<and> (\<forall>e. normalizeFeatures fs lo hi \<noteq> Inl e)"
proof -
  have "map fst (map (\<lambda>(k, v). (k, normalizeValue lo hi v)) fs) = map fst fs"
    by (induction fs) auto
  then show ?thesis by (simp add: normalizeFeatures_def)
qed

theorem normalizeFeatures_never_fails_witness:
  "num_le (Fin (- 50)) (Fin 50) \<and> num_le (Fin 50) (Fin 50)
   \<and> (\<exists>normalized. normalizeFeatures [(''eeg1'', Fin 0)] (Fin 50) (Fin (- 50)) = Inr normalized
          \<and> map fst normalized = [''eeg1''])
   \<and> (\<exists>normalized. normalizeFeatures [(''eeg1'', Fin 60)] (Fin 50) (Fin 50) = Inr normalized
          \<and> map fst normalized = [''eeg1''])"
proof -
  have h: "num_le (Fin (- 50)) (Fin 50)" "num_le (Fin 50) (Fin 50)"
    by (simp_all add: num_le_def)
  note t1 = normalizeFeatures_never_fails [OF h(1), of "[(''eeg1'', Fin 0)]"]
  note t2 = normalizeFeatures_never_fails [OF h(2), of "[(''eeg1'', Fin 60)]"]
  from h t1 t2 show ?thesis by simp
qed

section \<open>The label selected by classification\<close>

lemma pick_Fin:
  "result e = Some (Fin s) \<Longrightarrow>
     pick result (Fin h, d) e = (if h < s then (Fin s, e) else (Fin h, d))"
  by (simp add: pick_def)

lemma score_Fin: "result e = Some (Fin s) \<Longrightarrow> score result e = s"
  by (simp add: score_def)

lemma foldl_pick:
  assumes "\<forall>e \<in> set ys. \<exists>s. result e = Some (Fin s)"
  shows "\<exists>h d. foldl (pick result) (Fin h0, d0) ys = (Fin h, d)
           \<and> h0 \<le> h \<and> (\<forall>e \<in> set ys. score result e \<le> h)
           \<and> ((h = h0 \<and> d = d0)
              \<or> (h0 < h \<and> (\<exists>i < length ys. ys ! i = d \<and> score result d = h
                                \<and> (\<forall>j < i. score result (ys ! j) < h))))"
  using assms
proof (induction ys rule: rev_induct)
  case Nil
  then show ?case by simp
next
  case (snoc y ys)
  then obtain h d where f: "foldl (pick result) (Fin h0, d0) ys = (Fin h, d)"
    and le: "h0 \<le> h" and ub: "\<forall>e \<in> set ys. score result e \<le> h"
    and first: "(h = h0 \<and> d = d0)
              \<or> (h0 < h \<and> (\<exists>i < length ys. ys ! i = d \<and> score result d = h
                                \<and> (\<forall>j < i. score result (ys ! j) < h)))"
    by auto
  from snoc.prems obtain s where s: "result y = Some (Fin s)" by auto
  then have sc: "score result y = s" by (rule score_Fin)
  show ?case
  proof (cases "h < s")
    case True
    have "foldl (pick result) (Fin h0, d0) (ys @ [y]) = (Fin s, y)"
      using f s True by (simp add: pick_Fin)
    moreover have "h0 \<le> s" using le True by simp
    moreover have "\<forall>e \<in> set (ys @ [y]). score result e \<le> s"
      using ub True sc by auto
    moreover have "h0 < s" using le True by simp
    moreover have "\<exists>i < length (ys @ [y]). (ys @ [y]) ! i = y \<and> score result y = s
                                \<and> (\<forall>j < i. score result ((ys @ [y]) ! j) < s)"
    proof (intro exI [of _ "length ys"] conjI allI impI)
      fix j assume "j < length ys"
      then have "(ys @ [y]) ! j = ys ! j" "ys ! j \<in> set ys" by (simp_all add: nth_append)
      with ub True show "score result ((ys @ [y]) ! j) < s" by force
    qed (simp_all add: sc)
    ultimately show ?thesis by blast
  next
    case False
    have "foldl (pick result) (Fin h0, d0) (ys @ [y]) = (Fin h, d)"
      using f s False by (simp add: pick_Fin)
    moreover have "\<forall>e \<in> set (ys @ [y]). score result e \<le> h"
      using ub False sc by auto
    moreover have "(h = h0 \<and> d = d0)
              \<or> (h0 < h \<and> (\<exists>i < length (ys @ [y]). (ys @ [y]) ! i = d \<and> score result d = h
                                \<and> (\<forall>j < i. score result ((ys @ [y]) ! j) < h)))"
      using first
    proof
      assume "h = h0 \<and> d = d0" then show ?thesis by simp
    next
      assume "h0 < h \<and> (\<exists>i < length ys. ys ! i = d \<and> score result d = h
                                \<and> (\<forall>j < i. score result (ys ! j) < h))"
      then obtain i where "h0 < h" "i < length ys" "ys ! i = d" "score result d = h"
        "\<forall>j < i. score result (ys ! j) < h" by blast
      then have "i < length (ys @ [y]) \<and> (ys @ [y]) ! i = d \<and> score result d = h
                                \<and> (\<forall>j < i. score result ((ys @ [y]) ! j) < h)"
        by (simp add: nth_append)
      with \<open>h0 < h\<close> show ?thesis by blast
    qed
    ultimately show ?thesis using le by blast
  qed
qed

lemma sigmoid_scores_D:
  assumes "sigmoid_scores result" "e \<in> set EMOTIONS"
  shows "\<exists>s. result e = Some (Fin s) \<and> 0 < s \<and> s < 1"
proof -
  from assms have "case result e of Some (Fin s) \<Rightarrow> 0 < s \<and> s < 1 | _ \<Rightarrow> False"
    by (simp add: sigmoid_scores_def list_all_iff)
  then show ?thesis by (auto split: option.splits number.splits)
qed

lemma detectedEmotion_first_highest:
  assumes "sigmoid_scores result"
  shows "first_highest result = Some (detectedEmotion result)"
proof -
  have all: "\<forall>e \<in> set EMOTIONS. \<exists>s. result e = Some (Fin s)"
    using sigmoid_scores_D [OF assms] by blast
  from foldl_pick [OF all, of 0 "''neutral''"] obtain h d where
    f: "foldl (pick result) (Fin 0, ''neutral'') EMOTIONS = (Fin h, d)"
    and ub: "\<forall>e \<in> set EMOTIONS. score result e \<le> h"
    and first: "(h = 0 \<and> d = ''neutral'')
              \<or> (0 < h \<and> (\<exists>i < length EMOTIONS. EMOTIONS ! i = d \<and> score result d = h
                                \<and> (\<forall>j < i. score result (EMOTIONS ! j) < h)))"
    by blast
  have d: "detectedEmotion result = d" using f by (simp add: detectedEmotion_def)
  have "''happy'' \<in> set EMOTIONS" by (simp add: EMOTIONS_def)
  with sigmoid_scores_D [OF assms] obtain s where "result ''happy'' = Some (Fin s)" "0 < s"
    by blast
  then have "0 < score result ''happy''" by (simp add: score_Fin)
  with ub \<open>''happy'' \<in> set EMOTIONS\<close> have "0 < h" by force
  with first obtain i where i: "i < length EMOTIONS" "EMOTIONS ! i = d" "score result d = h"
    "\<forall>j < i. score result (EMOTIONS ! j) < h" by auto
  let ?P = "\<lambda>emotion. list_all (\<lambda>other. score result other \<le> score result emotion) EMOTIONS"
  have "?P (EMOTIONS ! i)" using i ub by (simp add: list_all_iff)
  moreover have "\<not> ?P (EMOTIONS ! j)" if "j < i" for j
  proof
    assume "?P (EMOTIONS ! j)"
    moreover have "d \<in> set EMOTIONS" using i nth_mem by blast
    ultimately have "score result d \<le> score result (EMOTIONS ! j)" by (simp add: list_all_iff)
    with i that show False by force
  qed
  ultimately have "find ?P EMOTIONS = Some d"
    using i unfolding find_Some_iff by blast
  then show ?thesis by (simp add: first_highest_def d)
qed

text \<open>
  Claim C5. For scores as a trained sigmoid network returns them (one for each of the
  seven labels, strictly between 0 and 1), the label that the loop selects is the label
  of \<open>EMOTIONS\<close> with the highest score, and among labels that tie for the highest
  score the one listed first. It is the label that \<open>classify\<close> returns when the model
  is ready and the network returns these scores for the normalized features, and the
  label that \<open>classifyEmotion\<close> hands over.
\<close>

theorem classify_first_highest:
  assumes "sigmoid_scores result"
  shows "first_highest result = Some (detectedEmotion result)
     \<and> detectedEmotion result \<in> set EMOTIONS
     \<and> (\<forall>other \<in> set EMOTIONS. score result other \<le> score result (detectedEmotion result))
     \<and> (extractFeatures samples = Inr fs \<and> normalizeFeatures fs (Fin (- 50)) (Fin 50) = Inr nf
          \<and> run nf = Inr result
          \<longrightarrow> classify (Some run) True samples = Inr (detectedEmotion result))
     \<and> (buffer \<noteq> [] \<and> run (averageData buffer) = Inr result
          \<longrightarrow> classifyEmotion (Some run) buffer = Some (detectedEmotion result))"
proof -
  have 1: "first_highest result = Some (detectedEmotion result)"
    using assms by (rule detectedEmotion_first_highest)
  then have f: "find (\<lambda>emotion. list_all (\<lambda>other. score result other \<le> score result emotion)
                  EMOTIONS) EMOTIONS = Some (detectedEmotion result)"
    by (simp add: first_highest_def)
  have 2: "detectedEmotion result \<in> set EMOTIONS"
    using f unfolding find_Some_iff by auto
  have 3: "\<forall>other \<in> set EMOTIONS. score result other \<le> score result (detectedEmotion result)"
    using f unfolding find_Some_iff by (auto simp: list_all_iff)
  have 4: "classify (Some run) True samples = Inr (detectedEmotion result)"
    if "extractFeatures samples = Inr fs \<and> normalizeFeatures fs (Fin (- 50)) (Fin 50) = Inr nf
          \<and> run nf = Inr result"
    using that by (simp add: classify_def classify_try_def)
  have 5: "classifyEmotion (Some run) buffer = Some (detectedEmotion result)"
    if "buffer \<noteq> [] \<and> run (averageData buffer) = Inr result"
    using that by (simp add: classifyEmotion_def)
  from 1 2 3 4 5 show ?thesis by blast
qed

theorem classify_first_highest_witness:
  "sigmoid_scores example_scores
   \<and> detectedEmotion example_scores = ''sad''
   \<and> score example_scores ''sad'' = score example_scores ''angry''
   \<and> classify (Some example_run) True [sample_a, sample_b] = Inr ''sad''
   \<and> classifyEmotion (Some example_run) [sample_a, sample_b] = Some ''sad''"
proof -
  have h: "sigmoid_scores example_scores"
    by (simp add: sigmoid_scores_def example_scores_def EMOTIONS_def)
  have fh: "first_highest example_scores = Some ''sad''"
    by (simp add: first_highest_def example_scores_def EMOTIONS_def score_def)
  have tie: "score example_scores ''sad'' = score example_scores ''angry''"
    by (simp add: example_scores_def score_def)
  obtain fs where fs: "extractFeatures [sample_a, sample_b] = Inr fs"
    by (auto simp: extractFeatures_def)
  obtain nf where nf: "normalizeFeatures fs (Fin (- 50)) (Fin 50) = Inr nf"
    by (auto simp: normalizeFeatures_def)
  have r: "example_run nf = Inr example_scores"
    "example_run (averageData [sample_a, sample_b]) = Inr example_scores"
    by (simp_all add: example_run_def)
  note t = classify_first_highest [OF h, of "[sample_a, sample_b]" fs nf example_run
      "[sample_a, sample_b]"]
  from t fh have d: "detectedEmotion example_scores = ''sad''" by simp
  from t fs nf r d have "classify (Some example_run) True [sample_a, sample_b] = Inr ''sad''"
    "classifyEmotion (Some example_run) [sample_a, sample_b] = Some ''sad''"
    by simp_all
  with h d tie show ?thesis by blast
qed

text \<open>
  Outside the range of a sigmoid network: when no label has a score above 0, the loop
  keeps its initial label.
\<close>

lemma detectedEmotion_default:
  assumes "\<forall>e \<in> set EMOTIONS. case result e of Some s \<Rightarrow> \<not> num_gt s (Fin 0) | None \<Rightarrow> True"
  shows "detectedEmotion result = ''neutral''"
proof -
  have "foldl (pick result) acc ys = acc"
    if "\<forall>e \<in> set ys. case result e of Some s \<Rightarrow> \<not> num_gt s (Fin 0) | None \<Rightarrow> True"
      "fst acc = Fin 0" for ys acc
    using that by (induction ys) (auto simp: pick_def split: option.splits)
  from this [OF assms, of "(Fin 0, ''neutral'')"] show ?thesis
    by (simp add: detectedEmotion_def)
qed

section \<open>Classification never throws\<close>

text \<open>
  Claim C6. While the classifier is \<open>null\<close> or \<open>isReady\<close> is false, \<open>classify\<close>
  returns "neutral" for every input. For every input it returns a label and never
  rejects: on the empty window, where feature extraction throws, and whenever anything in
  the \<open>try\<close> block throws, the network's \<open>run\<close> included, the result is "neutral".
\<close>

theorem classify_never_throws:
  "classify None isReady samples = Inr ''neutral''
   \<and> classify classifier False samples = Inr ''neutral''
   \<and> (\<exists>emotion. classify classifier isReady samples = Inr emotion)
   \<and> classify (Some run) True [] = Inr ''neutral''
   \<and> (classify_try run samples = Inl e \<longrightarrow> classify (Some run) True samples = Inr ''neutral'')
   \<and> (extractFeatures samples = Inr fs \<and> normalizeFeatures fs (Fin (- 50)) (Fin 50) = Inr nf
        \<and> run nf = Inl e \<longrightarrow> classify (Some run) True samples = Inr ''neutral'')"
proof -
  have 1: "classify None isReady samples = Inr ''neutral''"
    by (simp add: classify_def)
  have 2: "classify classifier False samples = Inr ''neutral''"
    by (simp add: classify_def split: option.splits)
  have 3: "\<exists>emotion. classify classifier isReady samples = Inr emotion"
    by (simp add: classify_def split: option.splits sum.splits)
  have 4: "classify (Some run) True [] = Inr ''neutral''"
    by (simp add: classify_def classify_try_def extractFeatures_def)
  have 5: "classify_try run samples = Inl e \<longrightarrow> classify (Some run) True samples = Inr ''neutral''"
    by (simp add: classify_def)
  have 6: "extractFeatures samples = Inr fs \<and> normalizeFeatures fs (Fin (- 50)) (Fin 50) = Inr nf
        \<and> run nf = Inl e \<longrightarrow> classify (Some run) True samples = Inr ''neutral''"
    by (simp add: classify_def classify_try_def)
  from 1 2 3 4 5 6 show ?thesis by blast
qed

theorem classify_never_throws_witness:
  "classify_try throwing_run [sample_a] = Inl (Error ''Cannot read properties of undefined'')
   \<and> classify (Some throwing_run) True [sample_a] = Inr ''neutral''"
proof -
  have h: "classify_try throwing_run [sample_a] = Inl (Error ''Cannot read properties of undefined'')"
    by (simp add: classify_try_def extractFeatures_def normalizeFeatures_def throwing_run_def)
  note t = classify_never_throws [of True "[sample_a]" None throwing_run
      "Error ''Cannot read properties of undefined''"]
  from h t show ?thesis by blast
qed

section \<open>Genre, description and tone lookups\<close>

text \<open>
  Claim C7 says that every unmapped label string falls back to the default string. At
  the label "constructor" \<open>getRecommendedGenre\<close> returns the function that the table
  inherits from \<open>Object.prototype\<close> and not "lofi study beats";
  \<open>getEmotionMusicDescription\<close> and the tone lookup do the same at inherited names.
\<close>

theorem lookup_inherited_property:
  "getRecommendedGenre (Some ''constructor'') = Inherited ''constructor''
   \<and> getRecommendedGenre (Some ''constructor'') \<noteq> Str ''lofi study beats''
   \<and> getEmotionMusicDescription (Some ''toString'') = Inherited ''toString''
   \<and> tone (Some ''__proto__'') = Inherited ''__proto__''"
  by (simp add: getRecommendedGenre_def getEmotionMusicDescription_def tone_def getProperty_def
      emotionToGenre_def descriptions_def emotionToTone_def Object_prototype_def)

text \<open>
  On the seven labels, on \<open>null\<close> and on every string that is neither a label nor a
  property name of \<open>Object.prototype\<close>, the three lookups return the mapped string or
  their default.
\<close>

lemma lookup_labels:
  "map (\<lambda>e. getRecommendedGenre (Some e)) EMOTIONS =
     map Str [''upbeat happy music'', ''melancholic piano music'', ''calming ambient music'',
       ''relaxing meditation music'', ''soothing acoustic music'',
       ''inspirational orchestral music'', ''lofi study beats'']"
  "map (\<lambda>e. getEmotionMusicDescription (Some e)) EMOTIONS =
     map Str [''Uplifting tunes to boost your happiness'', ''Comforting melodies for reflection'',
       ''Calming sounds to ease tension'', ''Peaceful ambient music to maintain tranquility'',
       ''Soothing melodies to provide reassurance'',
       ''Inspirational music for this moment of wonder'', ''Pleasant background music for focus'']"
  "map (\<lambda>e. tone (Some e)) EMOTIONS =
     map Str [''enthusiastic and upbeat'', ''empathetic and comforting'', ''calm and de-escalating'',
       ''peaceful and measured'', ''reassuring and supportive'', ''engaged and attentive'',
       ''balanced and informative'']"
  by (simp_all add: getRecommendedGenre_def getEmotionMusicDescription_def tone_def getProperty_def
      emotionToGenre_def descriptions_def emotionToTone_def EMOTIONS_def)

lemma lookup_null:
  "getRecommendedGenre None = Str ''lofi study beats''"
  "getEmotionMusicDescription None = Str ''Music to match your mood''"
  "tone None = Str ''neutral and helpful''"
  by (simp_all add: getRecommendedGenre_def getEmotionMusicDescription_def tone_def)

lemma lookup_unmapped:
  assumes "e \<notin> set EMOTIONS" "e \<notin> set Object_prototype"
  shows "getRecommendedGenre (Some e) = Str ''lofi study beats''"
    and "getEmotionMusicDescription (Some e) = Str ''Music to match your mood''"
    and "tone (Some e) = Str ''neutral and helpful''"
  using assms
  by (simp_all add: getRecommendedGenre_def getEmotionMusicDescription_def tone_def getProperty_def
      emotionToGenre_def descriptions_def emotionToTone_def EMOTIONS_def)

end
